theory Spec2Isabelle
  imports Main "HOL-Library.Sublist" "HOL-Library.Monad_Syntax"
begin

section \<open>JavaScript strings and the built-ins the service calls\<close>

text \<open>
  A JavaScript string is a sequence of UTF-16 code units; a code unit is modelled by its
  numeric value. \<open>js\<close> writes an ASCII literal.
\<close>

type_synonym jsstring = "nat list"

definition js :: "string \<Rightarrow> jsstring" where
  "js s = map of_char s"

text \<open>
  \<open>String.prototype.trim\<close> and the regular-expression class \<open>\s\<close> share one set of
  code units: TAB, LF, VT, FF, CR, SPACE, NBSP, U+1680, U+2000..U+200A, U+2028, U+2029,
  U+202F, U+205F, U+3000 and U+FEFF.
\<close>

definition isWhiteSpace :: "nat \<Rightarrow> bool" where
  "isWhiteSpace c =
     (c \<in> set [9, 10, 11, 12, 13, 32, 160, 5760, 8232, 8233, 8239, 8287, 12288, 65279]
      \<or> (8192 \<le> c \<and> c \<le> 8202))"

definition trim :: "jsstring \<Rightarrow> jsstring" where
  "trim s = rev (dropWhile isWhiteSpace (rev (dropWhile isWhiteSpace s)))"

text \<open>
  The code points of a string, as a regular expression with the flag \<open>u\<close> reads it: a
  high surrogate followed by a low surrogate is one code point, every other code unit is
  one by itself. \<open>codeUnits\<close> writes a code point back.
\<close>

definition isHighSurrogate :: "nat \<Rightarrow> bool" where
  "isHighSurrogate c = (55296 \<le> c \<and> c \<le> 56319)"

definition isLowSurrogate :: "nat \<Rightarrow> bool" where
  "isLowSurrogate c = (56320 \<le> c \<and> c \<le> 57343)"

fun codePoints :: "jsstring \<Rightarrow> nat list" where
  "codePoints [] = []"
| "codePoints [c] = [c]"
| "codePoints (c # d # s) =
     (if isHighSurrogate c \<and> isLowSurrogate d
      then (65536 + (c - 55296) * 1024 + (d - 56320)) # codePoints s
      else c # codePoints (d # s))"

definition codeUnits :: "nat \<Rightarrow> jsstring" where
  "codeUnits cp =
     (if cp < 65536 then [cp]
      else [55296 + (cp - 65536) div 1024, 56320 + (cp - 65536) mod 1024])"

text \<open>
  On a string of code units up to U+00FF (Basic Latin and Latin-1 Supplement)
  \<open>toLowerCase\<close> maps every code unit by itself, and \<open>normalize('NFD')\<close> decomposes
  every code unit by itself, an accented letter into its base letter and a combining
  mark; the Unicode data for these characters follow.
\<close>

definition isLatin1 :: "jsstring \<Rightarrow> bool" where
  "isLatin1 s = list_all (\<lambda>c. c < 256) s"

definition latin1_lower1 :: "nat \<Rightarrow> nat" where
  "latin1_lower1 c =
     (if (65 \<le> c \<and> c \<le> 90) \<or> (192 \<le> c \<and> c \<le> 222 \<and> c \<noteq> 215) then c + 32 else c)"

definition latin1_decompose1 :: "nat \<Rightarrow> jsstring" where
  "latin1_decompose1 c =
     (case map_of
        [(192, [65, 768]), (193, [65, 769]), (194, [65, 770]), (195, [65, 771]),
         (196, [65, 776]), (197, [65, 778]), (199, [67, 807]),
         (200, [69, 768]), (201, [69, 769]), (202, [69, 770]), (203, [69, 776]),
         (204, [73, 768]), (205, [73, 769]), (206, [73, 770]), (207, [73, 776]),
         (209, [78, 771]),
         (210, [79, 768]), (211, [79, 769]), (212, [79, 770]), (213, [79, 771]),
         (214, [79, 776]),
         (217, [85, 768]), (218, [85, 769]), (219, [85, 770]), (220, [85, 776]),
         (221, [89, 769]),
         (224, [97, 768]), (225, [97, 769]), (226, [97, 770]), (227, [97, 771]),
         (228, [97, 776]), (229, [97, 778]), (231, [99, 807]),
         (232, [101, 768]), (233, [101, 769]), (234, [101, 770]), (235, [101, 776]),
         (236, [105, 768]), (237, [105, 769]), (238, [105, 770]), (239, [105, 776]),
         (241, [110, 771]),
         (242, [111, 768]), (243, [111, 769]), (244, [111, 770]), (245, [111, 771]),
         (246, [111, 776]),
         (249, [117, 768]), (250, [117, 769]), (251, [117, 770]), (252, [117, 776]),
         (253, [121, 769]), (255, [121, 776])] c
      of None \<Rightarrow> [c] | Some d \<Rightarrow> d)"

text \<open>
  On every other string the platform's tables are parameters of the model: the case
  mapping behind \<open>toLowerCase\<close>, the canonical decomposition behind
  \<open>normalize('NFD')\<close>, and the code points with the Unicode property Diacritic. So is
  the rendering of a number in a template literal (\<open>'n\<close> is the type of numbers).
\<close>

record 'n Platform =
  lowerCaseTable :: "jsstring \<Rightarrow> jsstring"
  nfdTable :: "jsstring \<Rightarrow> jsstring"
  diacriticTable :: "nat \<Rightarrow> bool"
  numberToString :: "'n \<Rightarrow> jsstring"

definition toLowerCase :: "'n Platform \<Rightarrow> jsstring \<Rightarrow> jsstring" where
  "toLowerCase P s = (if isLatin1 s then map latin1_lower1 s else lowerCaseTable P s)"

definition normalizeNFD :: "'n Platform \<Rightarrow> jsstring \<Rightarrow> jsstring" where
  "normalizeNFD P s =
     (if isLatin1 s then concat (map latin1_decompose1 s) else nfdTable P s)"

text \<open>
  \<open>\p{Diacritic}\<close> on a code point: up to U+00FF the spacing marks U+005E, U+0060,
  U+00A8, U+00AF, U+00B4, U+00B7 and U+00B8 have the property; the combining marks
  U+0300..U+034E, among them those of the decompositions above, have it; for the other
  code points the platform's table says.
\<close>

definition isDiacritic :: "'n Platform \<Rightarrow> nat \<Rightarrow> bool" where
  "isDiacritic P cp =
     (if cp < 256 then cp \<in> set [94, 96, 168, 175, 180, 183, 184]
      else if 768 \<le> cp \<and> cp \<le> 846 then True
      else diacriticTable P cp)"

text \<open>\<open>s.replace(/\p{Diacritic}/gu, '')\<close>: every code point with the property is deleted.\<close>

definition stripDiacritics :: "'n Platform \<Rightarrow> jsstring \<Rightarrow> jsstring" where
  "stripDiacritics P s =
     concat (map codeUnits (filter (\<lambda>cp. \<not> isDiacritic P cp) (codePoints s)))"

text \<open>\<open>h.includes(n)\<close>: \<open>n\<close> occurs in \<open>h\<close> as a contiguous run of code units.\<close>

fun includes_str :: "jsstring \<Rightarrow> jsstring \<Rightarrow> bool" where
  "includes_str [] n = (n = [])"
| "includes_str (c # h) n = (prefix n (c # h) \<or> includes_str h n)"

section \<open>Types of the scrape service\<close>

record ScrapedComment =
  c_username :: jsstring
  c_text :: jsstring
  c_time :: "jsstring option"
  c_likes :: "nat option"

record ScrapedItem =
  url :: jsstring
  title :: "jsstring option"
  description :: "jsstring option"
  caption :: "jsstring option"
  username :: "jsstring option"
  authorUrl :: "jsstring option"
  videoSrc :: "jsstring option"
  comments :: "ScrapedComment list option"
  keywordMentioned :: "bool option"

record PerVideoMetrics =
  pv_index :: int
  pv_urlBefore :: "jsstring option"
  pv_urlAfter :: "jsstring option"
  pv_startedAt :: jsstring
  pv_endedAt :: jsstring
  pv_durationMs :: int
  pv_extractionMs :: int
  pv_movedToNextMs :: "int option"
  pv_commentsCount :: nat
  pv_navAttempts :: nat
  pv_navSucceeded :: bool
  pv_errors :: "jsstring list"

datatype RunMode = SearchMode | SequenceMode

record ScrapeRunMetrics =
  runId :: jsstring
  mode :: RunMode
  queryOrStartUrl :: jsstring
  headless :: bool
  startedAt :: jsstring
  endedAt :: jsstring
  durationMs :: int
  videosTargeted :: int
  videosScraped :: nat
  navFailures :: nat
  captchas :: nat
  totalComments :: nat
  perVideo :: "PerVideoMetrics list"

section \<open>The LRU cache\<close>

text \<open>
  The cache is a JavaScript \<open>Map\<close>: keys are unique and iteration follows insertion
  order, so it is an association list with the oldest entry first. \<open>Map_set\<close> on a key
  already present keeps the key's position; on a new key it appends.
\<close>

record CacheEntry =
  items :: "ScrapedItem list"
  metrics :: ScrapeRunMetrics
  createdAt :: int

type_synonym cache = "(jsstring \<times> CacheEntry) list"

record Config =
  CACHE_TTL_MS :: int
  CACHE_MAX_ENTRIES :: int

definition Map_get :: "cache \<Rightarrow> jsstring \<Rightarrow> CacheEntry option" where
  "Map_get m k = map_of m k"

definition Map_has :: "cache \<Rightarrow> jsstring \<Rightarrow> bool" where
  "Map_has m k = (map_of m k \<noteq> None)"

definition Map_delete :: "jsstring \<Rightarrow> cache \<Rightarrow> cache" where
  "Map_delete k m = filter (\<lambda>kv. fst kv \<noteq> k) m"

definition Map_set :: "jsstring \<Rightarrow> CacheEntry \<Rightarrow> cache \<Rightarrow> cache" where
  "Map_set k v m =
     (if Map_has m k then map (\<lambda>kv. if fst kv = k then (k, v) else kv) m else m @ [(k, v)])"

text \<open>\<open>lruKeyRaw\<close>: the trimmed, lower-cased search text, a plus sign, the result cap.\<close>

definition lruKeyRaw :: "'n Platform \<Rightarrow> jsstring option \<Rightarrow> 'n \<Rightarrow> jsstring" where
  "lruKeyRaw P search maxCount =
     (let s = toLowerCase P (trim (case search of None \<Rightarrow> [] | Some x \<Rightarrow> x))
      in s @ js ''+'' @ numberToString P maxCount)"

text \<open>
  \<open>lruGet\<close> at clock reading \<open>now\<close>: returns the hit (or \<open>None\<close> for \<open>null\<close>) and the
  cache as the call leaves it.
\<close>

definition lruGet :: "Config \<Rightarrow> int \<Rightarrow> cache \<Rightarrow> jsstring \<Rightarrow> CacheEntry option \<times> cache" where
  "lruGet cfg now c key =
     (case Map_get c key of
        None \<Rightarrow> (None, c)
      | Some hit \<Rightarrow>
          if CACHE_TTL_MS cfg > 0 \<and> now - createdAt hit > CACHE_TTL_MS cfg
          then (None, Map_delete key c)
          else (Some hit, Map_set key hit (Map_delete key c)))"

text \<open>
  The eviction loop of \<open>lruSet\<close>. On an empty map the oldest key is \<open>undefined\<close> and
  deleting it changes nothing, so with a negative capacity the loop never ends: the
  result \<open>None\<close> stands for not returning.
\<close>

definition delete_oldest :: "cache \<Rightarrow> cache" where
  "delete_oldest c = (case c of [] \<Rightarrow> c | kv # _ \<Rightarrow> Map_delete (fst kv) c)"

partial_function (option) evict :: "int \<Rightarrow> cache \<Rightarrow> cache option" where
  "evict cap c = (if int (length c) > cap then evict cap (delete_oldest c) else Some c)"

definition lruSet ::
  "Config \<Rightarrow> int \<Rightarrow> cache \<Rightarrow> jsstring \<Rightarrow> ScrapedItem list \<times> ScrapeRunMetrics \<Rightarrow> cache option" where
  "lruSet cfg now c key v =
     (let c1 = (if Map_has c key then Map_delete key c else c);
          c2 = Map_set key \<lparr>items = fst v, metrics = snd v, createdAt = now\<rparr> c1
      in evict (CACHE_MAX_ENTRIES cfg) c2)"

section \<open>Text matching helpers\<close>

text \<open>
  \<open>norm\<close>: lower-case, decompose canonically, delete every code point with the property
  Diacritic. A missing string counts as the empty string.
\<close>

definition norm :: "'n Platform \<Rightarrow> jsstring option \<Rightarrow> jsstring" where
  "norm P s =
     stripDiacritics P
       (normalizeNFD P (toLowerCase P (case s of None \<Rightarrow> [] | Some x \<Rightarrow> x)))"

definition contains :: "'n Platform \<Rightarrow> jsstring option \<Rightarrow> jsstring option \<Rightarrow> bool" where
  "contains P haystack needle =
     (let h = norm P haystack; n = norm P needle in n \<noteq> [] \<and> includes_str h n)"

section \<open>Building the search URL\<close>

datatype error =
    EmptySearchQuery
  | InvalidURL
  | NotATikTokURL
  | URIError
  | PageError
  | RunError jsstring

text \<open>
  What \<open>buildSearchUrl\<close> reads of a parsed URL. The parser itself, \<open>new URL(s)\<close>, is a
  parameter of the model: it returns \<open>None\<close> where the platform throws a TypeError.
\<close>

record URL =
  hostname :: jsstring
  pathname :: jsstring
  searchParams_q :: "jsstring option"

definition asciiLower :: "nat \<Rightarrow> nat" where
  "asciiLower c = (if 65 \<le> c \<and> c \<le> 90 then c + 32 else c)"

text \<open>The test \<open>/^https?:\/\//i\<close>.\<close>

definition isHttpUrl :: "jsstring \<Rightarrow> bool" where
  "isHttpUrl s =
     (let l = map asciiLower s in prefix (js ''http://'') l \<or> prefix (js ''https://'') l)"

text \<open>
  \<open>encodeURIComponent\<close>: unreserved characters stay, every other code point becomes the
  percent-escaped bytes of its UTF-8 form, and a lone surrogate throws a URIError
  (\<open>None\<close>).
\<close>

definition unreserved :: "nat \<Rightarrow> bool" where
  "unreserved c =
     ((65 \<le> c \<and> c \<le> 90) \<or> (97 \<le> c \<and> c \<le> 122) \<or> (48 \<le> c \<and> c \<le> 57)
      \<or> c \<in> set [45, 95, 46, 33, 126, 42, 39, 40, 41])"

definition hexDigit :: "nat \<Rightarrow> nat" where
  "hexDigit n = (if n < 10 then 48 + n else 55 + n)"

definition percent :: "nat \<Rightarrow> jsstring" where
  "percent b = [37, hexDigit (b div 16), hexDigit (b mod 16)]"

definition utf8 :: "nat \<Rightarrow> nat list" where
  "utf8 cp =
     (if cp < 128 then [cp]
      else if cp < 2048 then [192 + cp div 64, 128 + cp mod 64]
      else if cp < 65536 then [224 + cp div 4096, 128 + (cp div 64) mod 64, 128 + cp mod 64]
      else [240 + cp div 262144, 128 + (cp div 4096) mod 64, 128 + (cp div 64) mod 64,
            128 + cp mod 64])"

definition escape :: "nat \<Rightarrow> jsstring" where
  "escape cp = concat (map percent (utf8 cp))"

fun encodeURIComponent :: "jsstring \<Rightarrow> jsstring option" where
  "encodeURIComponent [] = Some []"
| "encodeURIComponent (c # s) =
     (if unreserved c then map_option (\<lambda>r. c # r) (encodeURIComponent s)
      else if isLowSurrogate c then None
      else if isHighSurrogate c then
        (case s of
           [] \<Rightarrow> None
         | d # s' \<Rightarrow>
             if isLowSurrogate d
             then map_option (\<lambda>r. escape (65536 + (c - 55296) * 1024 + (d - 56320)) @ r)
                    (encodeURIComponent s')
             else None)
      else map_option (\<lambda>r. escape c @ r) (encodeURIComponent s))"

definition searchUrlFor :: "jsstring \<Rightarrow> error + jsstring" where
  "searchUrlFor q =
     (case encodeURIComponent q of
        None \<Rightarrow> Inl URIError
      | Some e \<Rightarrow> Inr (js ''https://www.tiktok.com/search?q='' @ e))"

definition buildSearchUrl :: "(jsstring \<Rightarrow> URL option) \<Rightarrow> jsstring option \<Rightarrow> error + jsstring" where
  "buildSearchUrl URL_new input =
     (let s = trim (case input of None \<Rightarrow> [] | Some x \<Rightarrow> x)
      in if s = [] then Inl EmptySearchQuery
         else if isHttpUrl s then
           (case URL_new s of
              None \<Rightarrow> Inl InvalidURL
            | Some u \<Rightarrow>
                if \<not> includes_str (hostname u) (js ''tiktok.com'') then Inl NotATikTokURL
                else
                  let q = (case searchParams_q u of None \<Rightarrow> [] | Some x \<Rightarrow> x)
                  in if q \<noteq> [] then searchUrlFor q
                     else searchUrlFor
                            (trim (map (\<lambda>c. if c = 47 then 32 else c) (pathname u))))
         else searchUrlFor s)"

text \<open>
  A parser for evaluating examples. It reads URLs of the shape
  \<open>http(s)://host/path\<close> whose host is made of ASCII letters and dots, beginning and
  ending with a letter, and whose path is made of ASCII letters, digits, \<open>/\<close>, \<open>-\<close>,
  \<open>_\<close> and \<open>@\<close>; on these the platform's parser lower-cases the host, keeps the path
  (\<open>/\<close> when it is empty) and finds no query. Every other input is outside this table.
\<close>

definition isLetter :: "nat \<Rightarrow> bool" where
  "isLetter c = ((65 \<le> c \<and> c \<le> 90) \<or> (97 \<le> c \<and> c \<le> 122))"

definition URL_simple :: "jsstring \<Rightarrow> URL option" where
  "URL_simple s =
     (let l = map asciiLower s;
          rest = (if prefix (js ''https://'') l then Some (drop 8 s)
                  else if prefix (js ''http://'') l then Some (drop 7 s) else None)
      in case rest of
           None \<Rightarrow> None
         | Some r \<Rightarrow>
             let host = map asciiLower (takeWhile (\<lambda>c. c \<noteq> 47) r);
                 path = dropWhile (\<lambda>c. c \<noteq> 47) r
             in if host \<noteq> [] \<and> list_all (\<lambda>c. isLetter c \<or> c = 46) host
                   \<and> isLetter (hd host) \<and> isLetter (last host)
                   \<and> list_all (\<lambda>c. isLetter c \<or> (48 \<le> c \<and> c \<le> 57) \<or> c \<in> set [47, 45, 95, 64]) path
                then Some \<lparr>hostname = host, pathname = (if path = [] then [47] else path),
                           searchParams_q = None\<rparr>
                else None)"

section \<open>Scraping, caching and annotating\<close>

text \<open>What \<open>extractFromPage\<close> returns for one video.\<close>

record PageInfo =
  info_title :: "jsstring option"
  info_description :: "jsstring option"
  info_caption :: "jsstring option"
  info_username :: "jsstring option"
  info_authorUrl :: "jsstring option"
  info_videoSrc :: "jsstring option"
  info_url :: jsstring
  info_comments :: "ScrapedComment list"

text \<open>
  The browser side of \<open>scrapeFromSearch\<close>. \<open>open_page\<close> is the outcome of launching
  Chrome, opening the tab and configuring it (an error when one of these throws).
  \<open>traverse url maxCount\<close> is the outcome of opening the first video from the search URL
  and walking the videos: an error that escapes the run, or the page records of the
  videos extracted, in order, with the run's metrics; \<open>None\<close> when the run never returns
  (the captcha wait has no timeout).
\<close>

record 'n Browser =
  open_page :: "error option"
  traverse :: "jsstring \<Rightarrow> 'n \<Rightarrow> (error + PageInfo list \<times> ScrapeRunMetrics) option"

text \<open>The object pushed on \<open>items\<close> for one extracted video: no \<open>keywordMentioned\<close>.\<close>

definition item_of_info :: "PageInfo \<Rightarrow> ScrapedItem" where
  "item_of_info info =
     \<lparr>url = info_url info, title = info_title info, description = info_description info,
      caption = info_caption info, username = info_username info,
      authorUrl = info_authorUrl info, videoSrc = info_videoSrc info,
      comments = Some (info_comments info), keywordMentioned = None\<rparr>"

definition scrapeFromSearch ::
  "(jsstring \<Rightarrow> URL option) \<Rightarrow> 'n Browser \<Rightarrow> jsstring option \<Rightarrow> 'n
    \<Rightarrow> (error + ScrapedItem list \<times> ScrapeRunMetrics) option" where
  "scrapeFromSearch URL_new browser search maxCount =
     (case open_page browser of
        Some e \<Rightarrow> Some (Inl e)
      | None \<Rightarrow>
          (case buildSearchUrl URL_new search of
             Inl e \<Rightarrow> Some (Inl e)
           | Inr searchUrl \<Rightarrow>
               (case traverse browser searchUrl maxCount of
                  None \<Rightarrow> None
                | Some (Inl e) \<Rightarrow> Some (Inl e)
                | Some (Inr (infos, m)) \<Rightarrow>
                    let its = map item_of_info infos
                    in Some (Inr (its, m\<lparr>videosScraped := length its\<rparr>)))))"

text \<open>The annotation step of \<open>scrapeAnnotateAndCache\<close> and its optional filter.\<close>

definition mentioned :: "'n Platform \<Rightarrow> ScrapedItem \<Rightarrow> jsstring option \<Rightarrow> bool" where
  "mentioned P v keyword =
     (contains P (description v) keyword
      \<or> list_ex (\<lambda>c. contains P (Some (c_text c)) keyword)
           (case comments v of None \<Rightarrow> [] | Some cs \<Rightarrow> cs))"

definition annotate ::
  "'n Platform \<Rightarrow> ScrapedItem list \<Rightarrow> jsstring option \<Rightarrow> ScrapedItem list" where
  "annotate P raw_items keyword =
     map (\<lambda>v. v\<lparr>keywordMentioned := Some (mentioned P v keyword)\<rparr>) raw_items"

record Response =
  r_key :: jsstring
  r_items :: "ScrapedItem list"
  r_metrics :: ScrapeRunMetrics
  r_fromCache :: bool

definition respond ::
  "'n Platform \<Rightarrow> jsstring \<Rightarrow> CacheEntry \<Rightarrow> jsstring option \<Rightarrow> bool \<Rightarrow> bool \<Rightarrow> Response" where
  "respond P rawKey raw keyword showVideoOnlyWithMatchKeyword fromCache =
     (let annotated = annotate P (items raw) keyword;
          its = (if showVideoOnlyWithMatchKeyword
                 then filter (\<lambda>v. keywordMentioned v = Some True) annotated
                 else annotated)
      in \<lparr>r_key = rawKey, r_items = its, r_metrics = metrics raw, r_fromCache = fromCache\<rparr>)"

text \<open>
  \<open>scrapeAnnotateAndCache\<close> on the cache \<open>c\<close>: \<open>now\<close> is the clock reading of the cache
  read, \<open>now'\<close> the reading when a fresh result is stored. The result is the value
  returned or the error thrown, with the cache as the call leaves it; \<open>None\<close> when the
  call never returns.
\<close>

definition scrapeAnnotateAndCache ::
  "Config \<Rightarrow> 'n Platform \<Rightarrow> (jsstring \<Rightarrow> URL option) \<Rightarrow> 'n Browser \<Rightarrow> int \<Rightarrow> int \<Rightarrow> cache
    \<Rightarrow> jsstring option \<Rightarrow> jsstring option \<Rightarrow> 'n \<Rightarrow> bool \<Rightarrow> bool
    \<Rightarrow> ((error + Response) \<times> cache) option" where
  "scrapeAnnotateAndCache cfg P URL_new browser now now' c search keyword maxCount
      showVideoOnlyWithMatchKeyword forceRefresh =
     (let rawKey = lruKeyRaw P search maxCount;
          (hit, c1) = (if \<not> forceRefresh then lruGet cfg now c rawKey else (None, c))
      in case hit of
           Some raw \<Rightarrow>
             Some (Inr (respond P rawKey raw keyword showVideoOnlyWithMatchKeyword True), c1)
         | None \<Rightarrow>
             (case scrapeFromSearch URL_new browser search maxCount of
                None \<Rightarrow> None
              | Some (Inl e) \<Rightarrow> Some (Inl e, c1)
              | Some (Inr (its, m)) \<Rightarrow>
                  (case lruSet cfg now' c1 rawKey (its, m) of
                     None \<Rightarrow> None
                   | Some c2 \<Rightarrow>
                       Some (Inr (respond P rawKey
                                    \<lparr>items = its, metrics = m, createdAt = now'\<rparr>
                                    keyword showVideoOnlyWithMatchKeyword False), c2))))"

text \<open>A cache holds raw scrape output only: no stored item carries \<open>keywordMentioned\<close>.\<close>

definition raw_only :: "cache \<Rightarrow> bool" where
  "raw_only c = list_all (\<lambda>kv. list_all (\<lambda>v. keywordMentioned v = None) (items (snd kv))) c"

section \<open>The page\<close>

text \<open>
  The browser page as the service observes it during one run. Time is the value of
  \<open>Date.now()\<close> in milliseconds. Each observation is a function of the time at which it
  is made; \<open>latency p t\<close> is the time an awaited page call issued at \<open>t\<close> takes, and
  \<open>responsive p t\<close> says that a query issued at \<open>t\<close> is answered (otherwise the call
  rejects). \<open>commentWait p t\<close> is the time until a comment node appears to a
  \<open>waitForSelector\<close> started at \<open>t\<close>. A timer set for \<open>d\<close> ms takes \<open>d\<close> ms.
\<close>

datatype Selector =
    SelBrowseCommentIcon | SelCommentIcon | SelCommentTab
  | SelButtonAriaComment | SelButtonSvgComment | SelButtonPathComment
  | SelVideo | SelVideoDesc | SelMain | SelBody | SelNext

text \<open>
  A node matching \<open>[data-e2e="comment-level-1"], [data-e2e="comment-text"]\<close>, with what
  the extraction reads around it: the handle \<open>findHandleFrom\<close> resolves, and the text of
  the time and like-count elements of its wrapper.
\<close>

record CommentNode =
  textContent :: "jsstring option"
  handle :: "jsstring option"
  timeText :: "jsstring option"
  likeText :: "jsstring option"

record DomData =
  dom_caption :: "jsstring option"
  dom_username :: "jsstring option"
  dom_authorUrl :: "jsstring option"
  dom_videoSrc :: "jsstring option"
  dom_ogTitle :: "jsstring option"
  dom_metaDesc :: "jsstring option"
  dom_url :: jsstring

record Page =
  page_url :: "int \<Rightarrow> jsstring"
  videoCurrentSrc :: "int \<Rightarrow> jsstring option"
  videoDescText :: "int \<Rightarrow> jsstring"
  has_element :: "Selector \<Rightarrow> int \<Rightarrow> bool"
  commentNodes :: "int \<Rightarrow> CommentNode list"
  domData :: "int \<Rightarrow> DomData"
  scrollContainer :: "int \<Rightarrow> bool"
  commentWait :: "int \<Rightarrow> nat"
  latency :: "int \<Rightarrow> nat"
  responsive :: "int \<Rightarrow> bool"

definition await :: "Page \<Rightarrow> int \<Rightarrow> int" where
  "await p t = t + int (latency p t)"

section \<open>Comments extractor\<close>

text \<open>\<open>s.replace(/\s+/g, ' ')\<close>: every maximal run of white space becomes one space.\<close>

function collapseSpaces :: "jsstring \<Rightarrow> jsstring" where
  "collapseSpaces [] = []"
| "collapseSpaces (c # s) =
     (if isWhiteSpace c then 32 # collapseSpaces (dropWhile isWhiteSpace s)
      else c # collapseSpaces s)"
  by pat_completeness auto
termination
  by (relation "measure length") (auto simp: length_dropWhile_le less_Suc_eq_le)

definition nodeText :: "CommentNode \<Rightarrow> jsstring" where
  "nodeText t = trim (collapseSpaces (case textContent t of None \<Rightarrow> [] | Some s \<Rightarrow> s))"

definition isDigit :: "nat \<Rightarrow> bool" where
  "isDigit c = (48 \<le> c \<and> c \<le> 57)"

text \<open>
  \<open>Number(s)\<close> on a string of decimal digits; the empty string gives 0. The value is
  the exact one, which a JavaScript number holds up to \<open>2\<^sup>5\<^sup>3\<close>.
\<close>

definition Number_of_digits :: "jsstring \<Rightarrow> nat" where
  "Number_of_digits s = foldl (\<lambda>a c. 10 * a + (c - 48)) 0 s"

definition comment_of_node :: "CommentNode \<Rightarrow> jsstring \<Rightarrow> ScrapedComment" where
  "comment_of_node t txt =
     (let tm = trim (case timeText t of None \<Rightarrow> [] | Some s \<Rightarrow> s);
          likesStr = trim (case likeText t of None \<Rightarrow> [] | Some s \<Rightarrow> s)
      in \<lparr>c_username = (case handle t of
                          None \<Rightarrow> js ''unknown''
                        | Some h \<Rightarrow> if h \<noteq> [] then h else js ''unknown''),
          c_text = txt,
          c_time = (if tm \<noteq> [] then Some tm else None),
          c_likes = (if likesStr \<noteq> [] then Some (Number_of_digits (filter isDigit likesStr))
                     else None)\<rparr>)"

text \<open>The loop over the text nodes, with its \<open>continue\<close> and its \<open>break\<close>.\<close>

fun collect :: "nat \<Rightarrow> CommentNode list \<Rightarrow> ScrapedComment list \<Rightarrow> ScrapedComment list" where
  "collect max_n [] results = results"
| "collect max_n (t # ts) results =
     (let txt = nodeText t
      in if txt = [] then collect max_n ts results
         else let results' = results @ [comment_of_node t txt]
              in if length results' \<ge> max_n then results' else collect max_n ts results')"

definition extractItems :: "nat \<Rightarrow> CommentNode list \<Rightarrow> ScrapedComment list" where
  "extractItems max_n textNodes = take max_n (collect max_n textNodes [])"

definition openSelectors :: "Selector list" where
  "openSelectors =
     [SelBrowseCommentIcon, SelCommentIcon, SelCommentTab, SelButtonAriaComment,
      SelButtonSvgComment, SelButtonPathComment]"

text \<open>
  Clicking the first button that exists: \<open>page.$\<close> is not guarded, the click is, and a
  click is followed by a wait of \<open>pause\<close> ms.
\<close>

fun clickFirst :: "Page \<Rightarrow> int \<Rightarrow> Selector list \<Rightarrow> int \<Rightarrow> error + int" where
  "clickFirst p pause [] t = Inr t"
| "clickFirst p pause (sel # sels) t =
     (if \<not> responsive p t then Inl PageError
      else let t1 = await p t
           in if has_element p sel t1 then Inr (await p t1 + pause)
              else clickFirst p pause sels t1)"

text \<open>
  The scroll loop: it returns the time at which it ends. Every pass waits 350 ms, so the
  distance to the deadline shrinks.
\<close>

function scrollLoop :: "Page \<Rightarrow> nat \<Rightarrow> bool \<Rightarrow> int \<Rightarrow> nat \<Rightarrow> int \<Rightarrow> error + int" where
  "scrollLoop p limit containerSel deadline lastCount t =
     (if t < deadline then
        (let t1 = await p t + 350
         in if \<not> responsive p t1 then Inl PageError
            else let t2 = await p t1;
                     count = length (commentNodes p t2)
                 in if count \<ge> limit then Inr t2
                    else scrollLoop p limit containerSel deadline count
                           (if count > 0 \<and> count = lastCount \<and> containerSel
                            then await p t2 + 300 else t2))
      else Inr t)"
  by pat_completeness auto
termination
  by (relation "measure (\<lambda>(p, limit, containerSel, deadline, lastCount, t). nat (deadline - t))")
    (auto simp: await_def)

declare scrollLoop.simps [simp del]

definition extractComments :: "Page \<Rightarrow> nat \<Rightarrow> int \<Rightarrow> int \<Rightarrow> error + ScrapedComment list" where
  "extractComments p limit hardTimeoutMs t0 =
     (let t1 = await p t0 + 300
      in case clickFirst p 400 openSelectors t1 of
           Inl e \<Rightarrow> Inl e
         | Inr t2 \<Rightarrow>
             let t3 = t2 + int (min (commentWait p t2) 3500)
             in if \<not> responsive p t3 then Inl PageError
                else let t4 = await p t3;
                         containerSel = scrollContainer p t4;
                         deadline = t4 + hardTimeoutMs
                     in case scrollLoop p limit containerSel deadline 0 t4 of
                          Inl e \<Rightarrow> Inl e
                        | Inr t5 \<Rightarrow>
                            if \<not> responsive p t5 then Inl PageError
                            else Inr (extractItems limit (commentNodes p (await p t5))))"

section \<open>Moving to the next video\<close>

record NavResult =
  moved :: bool
  attempts :: nat
  tookMs :: int

text \<open>A string that is neither missing nor empty.\<close>

definition truthy :: "jsstring option \<Rightarrow> bool" where
  "truthy s = (case s of None \<Rightarrow> False | Some x \<Rightarrow> x \<noteq> [])"

definition isVideoUrl :: "jsstring \<Rightarrow> bool" where
  "isVideoUrl u = includes_str u (js ''/video/'')"

text \<open>
  \<open>hasChanged\<close> started at \<open>t\<close>, against the snapshot taken before the ladder: the
  answer and the time at which it is known. The two \<open>page.evaluate\<close> calls are not
  guarded.
\<close>

definition hasChanged ::
  "Page \<Rightarrow> jsstring \<Rightarrow> jsstring option \<Rightarrow> jsstring \<Rightarrow> int \<Rightarrow> error + bool \<times> int" where
  "hasChanged p beforeUrl beforeVideoSrc beforeCaption t =
     (if page_url p t \<noteq> beforeUrl then Inr (True, t)
      else if \<not> responsive p t then Inl PageError
      else let t1 = await p t;
               curSrc = videoCurrentSrc p t1
           in if truthy beforeVideoSrc \<and> truthy curSrc \<and> curSrc \<noteq> beforeVideoSrc
              then Inr (True, t1)
              else if \<not> responsive p t1 then Inl PageError
              else let t2 = await p t1;
                       curCaption = videoDescText p t2
                   in if curCaption \<noteq> [] \<and> curCaption \<noteq> beforeCaption then Inr (True, t2)
                      else Inr (False, t2))"

text \<open>
  The polling loop after one action, up to the local deadline: whether a change was seen,
  and the time at which the loop ends. Every pass without a change waits 200 ms.
\<close>

function poll ::
  "Page \<Rightarrow> jsstring \<Rightarrow> jsstring option \<Rightarrow> jsstring \<Rightarrow> int \<Rightarrow> int \<Rightarrow> error + bool \<times> int" where
  "poll p beforeUrl beforeVideoSrc beforeCaption localDeadline t =
     (if t < localDeadline then
        (case hasChanged p beforeUrl beforeVideoSrc beforeCaption t of
           Inl e \<Rightarrow> Inl e
         | Inr (changed, t1) \<Rightarrow>
             if changed then Inr (True, t1)
             else poll p beforeUrl beforeVideoSrc beforeCaption localDeadline (t1 + 200))
      else Inr (False, t))"
  by pat_completeness auto
termination
  by (relation "measure (\<lambda>(p, bu, bs, bc, localDeadline, t). nat (localDeadline - t))")
    (auto simp: hasChanged_def await_def Let_def split: if_splits)

declare poll.simps [simp del]

text \<open>
  The ladder of actions. Each action counts one attempt; what it throws is swallowed, so
  an action only takes time.
\<close>

datatype Action =
    PressArrowDown | PressArrowRight | PressPageDown | WheelDown | ClickNext
  | ClickBodyArrowDown

definition actions :: "Action list" where
  "actions =
     [PressArrowDown, PressArrowRight, PressPageDown, WheelDown, ClickNext, ClickBodyArrowDown]"

fun perform :: "Page \<Rightarrow> Action \<Rightarrow> int \<Rightarrow> int" where
  "perform p ClickNext t =
     (let t1 = await p t in if has_element p SelNext t1 then await p t1 else t1)"
| "perform p ClickBodyArrowDown t = await p (await p t)"
| "perform p _ t = await p t"

fun ladder ::
  "Page \<Rightarrow> jsstring \<Rightarrow> jsstring option \<Rightarrow> jsstring \<Rightarrow> int \<Rightarrow> int \<Rightarrow> Action list \<Rightarrow> nat \<Rightarrow> int
    \<Rightarrow> error + NavResult" where
  "ladder p beforeUrl beforeVideoSrc beforeCaption t0 deadline [] n t =
     Inr \<lparr>moved = False, attempts = n, tookMs = t - t0\<rparr>"
| "ladder p beforeUrl beforeVideoSrc beforeCaption t0 deadline (act # acts) n t =
     (let t1 = perform p act t;
          localDeadline = t1 + 2500
      in case poll p beforeUrl beforeVideoSrc beforeCaption localDeadline t1 of
           Inl e \<Rightarrow> Inl e
         | Inr (changed, t2) \<Rightarrow>
             if changed then
               (if \<not> isVideoUrl (page_url p t2)
                then Inr \<lparr>moved = True, attempts = n + 2, tookMs = await p t2 + 500 - t0\<rparr>
                else Inr \<lparr>moved = True, attempts = n + 1, tookMs = t2 - t0\<rparr>)
             else if t2 \<ge> deadline
             then Inr \<lparr>moved = False, attempts = n + 1, tookMs = t2 - t0\<rparr>
             else ladder p beforeUrl beforeVideoSrc beforeCaption t0 deadline acts (n + 1) t2)"

definition goToNextVideo :: "Page \<Rightarrow> int \<Rightarrow> int \<Rightarrow> error + NavResult" where
  "goToNextVideo p timeoutMs t0 =
     (case clickFirst p 0 [SelVideo, SelVideoDesc, SelMain, SelBody] (await p t0) of
        Inl e \<Rightarrow> Inl e
      | Inr t1 \<Rightarrow>
          let (n, t2) = (if \<not> isVideoUrl (page_url p t1) then (1, await p t1 + 300)
                         else (0, t1));
              beforeUrl = page_url p t2
          in if \<not> responsive p t2 then Inl PageError
             else let t3 = await p t2;
                      beforeVideoSrc = videoCurrentSrc p t3
                  in if \<not> responsive p t3 then Inl PageError
                     else let t4 = await p t3;
                              beforeCaption = videoDescText p t4;
                              deadline = t4 + timeoutMs
                          in ladder p beforeUrl beforeVideoSrc beforeCaption t0 deadline
                               actions n t4)"

section \<open>Page extractor\<close>

text \<open>What the oEmbed endpoint returned (\<open>None\<close> fields are missing or \<open>null\<close>).\<close>

record OEmbed =
  oembed_title :: "jsstring option"
  oembed_author_name :: "jsstring option"
  oembed_author_url :: "jsstring option"
  oembed_thumbnail_url :: "jsstring option"

text \<open>
  The resolver: what \<open>fetchOEmbed\<close> yields for a URL (\<open>None\<close> for \<open>null\<close>: any failure),
  and how long the call takes.
\<close>

record Resolver =
  fetchOEmbed :: "jsstring \<Rightarrow> OEmbed option"
  fetchMs :: nat

text \<open>\<open>a ?? b\<close>.\<close>

definition nullish :: "'a option \<Rightarrow> 'a option \<Rightarrow> 'a option" where
  "nullish a b = (case a of None \<Rightarrow> b | Some x \<Rightarrow> Some x)"

text \<open>\<open>s.replace(/^@/, '')\<close>.\<close>

definition stripAt :: "jsstring \<Rightarrow> jsstring" where
  "stripAt s = (case s of [] \<Rightarrow> [] | c # r \<Rightarrow> if c = 64 then r else s)"

text \<open>
  The first match of \<open>/tiktok\.com\/@([^/]+)/\<close>: its group, the longest run of
  characters other than \<open>/\<close> after the leftmost \<open>tiktok.com/@\<close> that has one.
\<close>

fun matchHandle :: "jsstring \<Rightarrow> jsstring option" where
  "matchHandle [] = None"
| "matchHandle (c # s) =
     (let h = takeWhile (\<lambda>x. x \<noteq> 47) (drop 12 (c # s))
      in if prefix (js ''tiktok.com/@'') (c # s) \<and> h \<noteq> [] then Some h else matchHandle s)"

text \<open>
  The first match of \<open>/\/@([^/]+)\/video\/(\d+)/\<close> in a path: the user and the video id.
\<close>

fun matchVideoPath :: "jsstring \<Rightarrow> (jsstring \<times> jsstring) option" where
  "matchVideoPath [] = None"
| "matchVideoPath (c # s) =
     (let user = takeWhile (\<lambda>x. x \<noteq> 47) (drop 2 (c # s));
          rest = drop (2 + length user) (c # s);
          vid = takeWhile isDigit (drop 7 rest)
      in if prefix (js ''/@'') (c # s) \<and> user \<noteq> [] \<and> prefix (js ''/video/'') rest \<and> vid \<noteq> []
         then Some (user, vid) else matchVideoPath s)"

definition normalizeVideoUrl :: "(jsstring \<Rightarrow> URL option) \<Rightarrow> jsstring \<Rightarrow> jsstring option" where
  "normalizeVideoUrl URL_new raw =
     (case URL_new raw of
        None \<Rightarrow> None
      | Some u \<Rightarrow>
          (case matchVideoPath (pathname u) of
             None \<Rightarrow> None
           | Some (user, vid) \<Rightarrow>
               Some (js ''https://www.tiktok.com/@'' @ user @ js ''/video/'' @ vid)))"

text \<open>
  The field precedence of \<open>extractFromPage\<close>, from the page URL, the resolver's answer,
  the in-page data and the harvested comments.
\<close>

definition extractFields ::
  "(jsstring \<Rightarrow> URL option) \<Rightarrow> jsstring \<Rightarrow> OEmbed option \<Rightarrow> DomData \<Rightarrow> ScrapedComment list
    \<Rightarrow> PageInfo" where
  "extractFields URL_new currentUrl oembed dd cmts =
     (let normalized = normalizeVideoUrl URL_new currentUrl;
          usernameFromUrl = matchHandle currentUrl;
          oe_title = (case oembed of None \<Rightarrow> None | Some oe \<Rightarrow> oembed_title oe);
          oe_author_name = (case oembed of None \<Rightarrow> None | Some oe \<Rightarrow> oembed_author_name oe);
          oe_author_url = (case oembed of None \<Rightarrow> None | Some oe \<Rightarrow> oembed_author_url oe);
          cap = nullish oe_title (nullish (dom_caption dd) (dom_metaDesc dd));
          user = nullish (if truthy oe_author_name then map_option stripAt oe_author_name else None)
                   (nullish usernameFromUrl
                      (if truthy (dom_username dd) then map_option stripAt (dom_username dd)
                       else None));
          author = nullish oe_author_url
                     (nullish (case user of
                                 None \<Rightarrow> None
                               | Some x \<Rightarrow> if x \<noteq> [] then Some (js ''https://www.tiktok.com/@'' @ x)
                                           else None)
                        (dom_authorUrl dd));
          ttl = nullish (dom_ogTitle dd)
                  (nullish cap (Some (case normalized of None \<Rightarrow> currentUrl | Some x \<Rightarrow> x)))
      in \<lparr>info_title = ttl, info_description = cap, info_caption = cap, info_username = user,
          info_authorUrl = author, info_videoSrc = dom_videoSrc dd,
          info_url = (case normalized of None \<Rightarrow> dom_url dd | Some x \<Rightarrow> x),
          info_comments = cmts\<rparr>)"

text \<open>
  \<open>extractFromPage\<close> at time \<open>t0\<close>: the resolver is asked first, then the page, then the
  comments are harvested with the target count 20 and the default deadline of 12 s.
\<close>

definition extractFromPage ::
  "(jsstring \<Rightarrow> URL option) \<Rightarrow> Resolver \<Rightarrow> Page \<Rightarrow> int \<Rightarrow> error + PageInfo" where
  "extractFromPage URL_new resolver p t0 =
     (let currentUrl = page_url p t0;
          normalized = normalizeVideoUrl URL_new currentUrl;
          oembed = fetchOEmbed resolver (case normalized of None \<Rightarrow> currentUrl | Some x \<Rightarrow> x);
          t1 = t0 + int (fetchMs resolver)
      in if \<not> responsive p t1 then Inl PageError
         else let t2 = await p t1;
                  dd = domData p t2
              in case extractComments p 20 12000 t2 of
                   Inl e \<Rightarrow> Inl e
                 | Inr cmts \<Rightarrow> Inr (extractFields URL_new currentUrl oembed dd cmts))"

text \<open>
  The precedence as the specification words it: the first value of a chain that is
  present. \<open>nonempty\<close> reads the empty string as absent.
\<close>

fun first_present :: "'a option list \<Rightarrow> 'a option" where
  "first_present [] = None"
| "first_present (None # xs) = first_present xs"
| "first_present (Some x # xs) = Some x"

definition nonempty :: "jsstring option \<Rightarrow> jsstring option" where
  "nonempty s = (if truthy s then s else None)"

section \<open>Sample data\<close>

text \<open>
  A platform for evaluating examples. Its numbers are the integers, rendered in decimal,
  as JavaScript renders the integers of a magnitude up to \<open>2\<^sup>5\<^sup>3\<close>. The examples
  use strings up to U+00FF only, so they consult none of its other tables.
\<close>

fun digits :: "nat \<Rightarrow> jsstring" where
  "digits n = (if n < 10 then [48 + n] else digits (n div 10) @ [48 + n mod 10])"

declare digits.simps [simp del]

definition decimal :: "int \<Rightarrow> jsstring" where
  "decimal n = (if n < 0 then 45 # digits (nat (- n)) else digits (nat n))"

definition sample_platform :: "int Platform" where
  "sample_platform =
     \<lparr>lowerCaseTable = (\<lambda>s. s), nfdTable = (\<lambda>s. s), diacriticTable = (\<lambda>cp. False),
      numberToString = decimal\<rparr>"

definition sample_metrics :: ScrapeRunMetrics where
  "sample_metrics =
     \<lparr>runId = js ''run-1'', mode = SearchMode, queryOrStartUrl = js ''science fact'',
      headless = True, startedAt = js ''2025-01-01T00:00:00.000Z'',
      endedAt = js ''2025-01-01T00:00:41.000Z'', durationMs = 41000, videosTargeted = 3,
      videosScraped = 0, navFailures = 0, captchas = 0, totalComments = 0, perVideo = []\<rparr>"

definition sample_cfg :: Config where
  "sample_cfg = \<lparr>CACHE_TTL_MS = 1000, CACHE_MAX_ENTRIES = 2\<rparr>"

definition sample_entry :: "int \<Rightarrow> CacheEntry" where
  "sample_entry t = \<lparr>items = [], metrics = sample_metrics, createdAt = t\<rparr>"

definition sample_video :: ScrapedItem where
  "sample_video =
     \<lparr>url = js ''https://www.tiktok.com/@alice/video/1'', title = Some (js ''Science''),
      description = Some (js ''Fun fact''), caption = Some (js ''Fun fact''),
      username = Some (js ''alice''), authorUrl = Some (js ''https://www.tiktok.com/@alice''),
      videoSrc = None,
      comments = Some [\<lparr>c_username = js ''bob'', c_text = js ''My BODY'',
                         c_time = None, c_likes = Some 3\<rparr>],
      keywordMentioned = None\<rparr>"

definition sample_info :: PageInfo where
  "sample_info =
     \<lparr>info_title = Some (js ''Science''), info_description = Some (js ''Fun fact''),
      info_caption = Some (js ''Fun fact''), info_username = Some (js ''alice''),
      info_authorUrl = Some (js ''https://www.tiktok.com/@alice''), info_videoSrc = None,
      info_url = js ''https://www.tiktok.com/@alice/video/1'',
      info_comments = [\<lparr>c_username = js ''bob'', c_text = js ''My BODY'', c_time = None,
                         c_likes = Some 3\<rparr>]\<rparr>"

definition sample_browser :: "int Browser" where
  "sample_browser =
     \<lparr>open_page = None, traverse = (\<lambda>searchUrl maxCount. Some (Inr ([sample_info], sample_metrics)))\<rparr>"

definition sample_raw :: "int \<Rightarrow> CacheEntry" where
  "sample_raw t = \<lparr>items = [sample_video], metrics = sample_metrics, createdAt = t\<rparr>"

definition sample_nodes :: "CommentNode list" where
  "sample_nodes =
     [\<lparr>textContent = Some (js ''  so   cool ''), handle = Some (js ''bob''),
       timeText = Some (js ''2d ago''), likeText = Some (js ''1,204'')\<rparr>,
      \<lparr>textContent = Some (js ''   ''), handle = None, timeText = None, likeText = None\<rparr>,
      \<lparr>textContent = Some (js ''wow''), handle = None, timeText = None, likeText = None\<rparr>,
      \<lparr>textContent = Some (js ''third''), handle = None, timeText = None, likeText = None\<rparr>]"

definition sample_dom :: DomData where
  "sample_dom =
     \<lparr>dom_caption = Some (js ''Hello''), dom_username = Some (js ''@carol''),
      dom_authorUrl = Some (js ''https://www.tiktok.com/@carol''), dom_videoSrc = None,
      dom_ogTitle = None, dom_metaDesc = Some (js ''Meta''),
      dom_url = js ''https://www.tiktok.com/@bob/video/1''\<rparr>"

definition sample_page :: Page where
  "sample_page =
     \<lparr>page_url = (\<lambda>t. js ''https://www.tiktok.com/@alice/video/1''),
      videoCurrentSrc = (\<lambda>t. Some (js ''blob:1'')),
      videoDescText = (\<lambda>t. js ''Fun fact''),
      has_element = (\<lambda>sel t. sel = SelVideo \<or> sel = SelBody),
      commentNodes = (\<lambda>t. sample_nodes),
      domData = (\<lambda>t. sample_dom),
      scrollContainer = (\<lambda>t. True),
      commentWait = (\<lambda>t. 0),
      latency = (\<lambda>t. 0),
      responsive = (\<lambda>t. True)\<rparr>"

definition sample_oembed :: OEmbed where
  "sample_oembed =
     \<lparr>oembed_title = Some (js ''Title''), oembed_author_name = Some (js ''@alice''),
      oembed_author_url = None, oembed_thumbnail_url = None\<rparr>"

section \<open>Properties of the cache key\<close>

text \<open>White space before and after a text is dropped, whatever stands between.\<close>

lemma trim_pad:
  assumes ws1: "\<forall>c \<in> set ws1. isWhiteSpace c" and ws2: "\<forall>c \<in> set ws2. isWhiteSpace c"
  shows "trim (ws1 @ s @ ws2) = trim s"
proof -
  have front: "dropWhile isWhiteSpace (ws1 @ s @ ws2) = dropWhile isWhiteSpace (s @ ws2)"
    using ws1 by (simp add: dropWhile_append2)
  show ?thesis
  proof (cases "\<forall>c \<in> set s. isWhiteSpace c")
    case True
    then have e: "dropWhile isWhiteSpace (s @ ws2) = []" "dropWhile isWhiteSpace s = []"
      using ws2 by auto
    have "dropWhile isWhiteSpace (ws1 @ s @ ws2) = dropWhile isWhiteSpace s"
      by (simp only: front e)
    then show ?thesis by (simp only: trim_def)
  next
    case False
    then obtain x where x: "x \<in> set s" "\<not> isWhiteSpace x" by blast
    have "dropWhile isWhiteSpace (s @ ws2) = dropWhile isWhiteSpace s @ ws2"
      using x by (rule dropWhile_append1)
    moreover have "dropWhile isWhiteSpace (rev ws2 @ rev (dropWhile isWhiteSpace s))
        = dropWhile isWhiteSpace (rev (dropWhile isWhiteSpace s))"
      by (rule dropWhile_append2) (insert ws2, simp)
    ultimately have "rev (dropWhile isWhiteSpace (rev (dropWhile isWhiteSpace (s @ ws2))))
        = rev (dropWhile isWhiteSpace (rev (dropWhile isWhiteSpace s)))"
      by simp
    with front show ?thesis by (simp only: trim_def)
  qed
qed

text \<open>The trimmed text has no white space at either end.\<close>

lemma trim_ends:
  assumes ne: "trim s \<noteq> []"
  shows "\<not> isWhiteSpace (hd (trim s)) \<and> \<not> isWhiteSpace (last (trim s))"
proof -
  define d where "d = dropWhile isWhiteSpace s"
  define r where "r = dropWhile isWhiteSpace (rev d)"
  have t: "trim s = rev r" by (simp add: trim_def d_def r_def)
  with ne have r: "r \<noteq> []" by simp
  then have l: "\<not> isWhiteSpace (hd r)" unfolding r_def by (rule hd_dropWhile)
  from r have "rev d \<noteq> []" unfolding r_def by (cases "rev d") simp_all
  then have "d \<noteq> []" by simp
  then have h: "\<not> isWhiteSpace (hd d)" unfolding d_def by (rule hd_dropWhile)
  have "rev (takeWhile isWhiteSpace (rev d) @ r) = rev (rev d)"
    unfolding r_def by (simp only: takeWhile_dropWhile_id)
  then have "d = rev r @ rev (takeWhile isWhiteSpace (rev d))"
    by (simp only: rev_append rev_rev_ident)
  then have "hd d = hd (rev r @ rev (takeWhile isWhiteSpace (rev d)))" by (rule arg_cong)
  with r have "hd d = hd (rev r)" by simp
  moreover from r have "last (rev r) = hd r" by (simp add: last_rev)
  ultimately show ?thesis using l h by (simp add: t)
qed

text \<open>The sample rendering of a number: reading the digits back gives the number.\<close>

lemma digits_range: "c \<in> set (digits n) \<Longrightarrow> 48 \<le> c \<and> c \<le> 57"
proof (induction n arbitrary: c rule: digits.induct)
  case (1 n)
  show ?case
  proof (cases "n < 10")
    case True
    with "1.prems" show ?thesis by (simp add: digits.simps[of n])
  next
    case False
    with "1.prems" "1.IH" show ?thesis
      by (auto simp: digits.simps[of n])
  qed
qed

lemma undigits_digits: "foldl (\<lambda>a c. 10 * a + (c - 48)) 0 (digits n) = n"
proof (induction n rule: digits.induct)
  case (1 n)
  show ?case
  proof (cases "n < 10")
    case True
    then show ?thesis by (simp add: digits.simps[of n])
  next
    case False
    with "1.IH" show ?thesis
      by (simp add: digits.simps[of n])
  qed
qed

lemma digits_inj: "digits m = digits n \<Longrightarrow> m = n"
  by (metis undigits_digits)

lemma digits_no_minus: "digits n \<noteq> 45 # s"
proof
  assume "digits n = 45 # s"
  then have "45 \<in> set (digits n)" by simp
  from digits_range[OF this] show False by simp
qed

lemma decimal_inj: "decimal m = decimal n \<Longrightarrow> m = n"
  unfolding decimal_def
  by (auto split: if_splits dest: digits_inj simp: digits_no_minus digits_no_minus[symmetric])

lemma inj_decimal: "inj (numberToString sample_platform)"
  by (auto simp: sample_platform_def inj_def dest: decimal_inj)

lemmas builtin_eval = sample_platform_def toLowerCase_def normalizeNFD_def stripDiacritics_def
  isLatin1_def latin1_lower1_def isDiacritic_def codeUnits_def isHighSurrogate_def js_def

text \<open>
  C5. The cache key is the search text, trimmed and then lower-cased, followed by
  \<open>"+"\<close> and the rendering of the result cap. So white space around the search text
  does not reach the key, two search texts that trim and lower-case to the same text
  have the same key, and \<open>" Foo "\<close> has the key of \<open>"foo"\<close> for every result cap. For
  one search text, two result caps give the same key exactly when they are rendered the
  same; where the rendering tells all numbers apart, different result caps give
  different keys.
\<close>

theorem lruKeyRaw_normalizes:
  "lruKeyRaw P search n =
     toLowerCase P (trim (case search of None \<Rightarrow> [] | Some x \<Rightarrow> x)) @ js ''+''
       @ numberToString P n
   \<and> ((\<forall>c \<in> set wsa. isWhiteSpace c) \<and> (\<forall>c \<in> set wsb. isWhiteSpace c)
        \<longrightarrow> lruKeyRaw P (Some (wsa @ s @ wsb)) n = lruKeyRaw P (Some s) n)
   \<and> (toLowerCase P (trim a) = toLowerCase P (trim b)
        \<longrightarrow> lruKeyRaw P (Some a) n = lruKeyRaw P (Some b) n)
   \<and> lruKeyRaw P (Some (js '' Foo '')) n = lruKeyRaw P (Some (js ''foo'')) n
   \<and> lruKeyRaw P (Some (js ''foo'')) n = js ''foo+'' @ numberToString P n
   \<and> ((lruKeyRaw P search m = lruKeyRaw P search n)
        = (numberToString P m = numberToString P n))
   \<and> (inj (numberToString P) \<and> m \<noteq> n \<longrightarrow> lruKeyRaw P search m \<noteq> lruKeyRaw P search n)"
proof -
  have foo: "lruKeyRaw P (Some (js '' Foo '')) n = js ''foo+'' @ numberToString P n"
    "lruKeyRaw P (Some (js ''foo'')) n = js ''foo+'' @ numberToString P n"
    by (simp_all add: lruKeyRaw_def js_def trim_def isWhiteSpace_def toLowerCase_def
        isLatin1_def latin1_lower1_def)
  have "(\<forall>c \<in> set wsa. isWhiteSpace c) \<and> (\<forall>c \<in> set wsb. isWhiteSpace c)
        \<longrightarrow> lruKeyRaw P (Some (wsa @ s @ wsb)) n = lruKeyRaw P (Some s) n"
    by (simp add: lruKeyRaw_def trim_pad)
  moreover have "inj (numberToString P) \<and> m \<noteq> n
        \<longrightarrow> lruKeyRaw P search m \<noteq> lruKeyRaw P search n"
    by (auto simp: lruKeyRaw_def Let_def dest: injD)
  moreover have "lruKeyRaw P (Some (js '' Foo '')) n = lruKeyRaw P (Some (js ''foo'')) n"
    by (simp only: foo)
  moreover have "(toLowerCase P (trim a) = toLowerCase P (trim b)
        \<longrightarrow> lruKeyRaw P (Some a) n = lruKeyRaw P (Some b) n)"
    by (simp add: lruKeyRaw_def)
  moreover have "(lruKeyRaw P search m = lruKeyRaw P search n)
        = (numberToString P m = numberToString P n)"
    by (simp add: lruKeyRaw_def Let_def)
  moreover have "lruKeyRaw P search n =
     toLowerCase P (trim (case search of None \<Rightarrow> [] | Some x \<Rightarrow> x)) @ js ''+''
       @ numberToString P n"
    by (simp add: lruKeyRaw_def Let_def)
  ultimately show ?thesis using foo(2) by blast
qed

theorem lruKeyRaw_normalizes_witness:
  "lruKeyRaw sample_platform (Some (js '' Foo '')) 5 = js ''foo+5''
   \<and> lruKeyRaw sample_platform (Some (js ''foo'')) 5 = js ''foo+5''
   \<and> lruKeyRaw sample_platform (Some (js ''FOO'')) 5 = js ''foo+5''
   \<and> lruKeyRaw sample_platform (Some (js ''foo'')) 10 = js ''foo+10''
   \<and> lruKeyRaw sample_platform (Some (js ''foo'')) 5
       \<noteq> lruKeyRaw sample_platform (Some (js ''foo'')) 10"
proof -
  have k: "lruKeyRaw sample_platform (Some (js ''foo'')) 5 = js ''foo+5''"
    "lruKeyRaw sample_platform (Some (js ''foo'')) 10 = js ''foo+10''"
    by (simp_all add: lruKeyRaw_def builtin_eval trim_def isWhiteSpace_def decimal_def
        digits.simps)
  have ws: "\<forall>c \<in> set (js '' ''). isWhiteSpace c" by (simp add: js_def isWhiteSpace_def)
  have low: "toLowerCase sample_platform (trim (js ''FOO''))
      = toLowerCase sample_platform (trim (js ''foo''))"
    by (simp add: builtin_eval trim_def isWhiteSpace_def)
  have pad: "js '' '' @ js ''Foo'' @ js '' '' = js '' Foo ''" by (simp add: js_def)
  note T = lruKeyRaw_normalizes [where P = sample_platform and wsa = "js '' ''"
      and wsb = "js '' ''" and s = "js ''Foo''" and a = "js ''FOO''" and b = "js ''foo''"
      and n = 5 and m = 10 and search = "Some (js ''foo'')"]
  from T ws have "lruKeyRaw sample_platform (Some (js '' '' @ js ''Foo'' @ js '' '')) 5
      = lruKeyRaw sample_platform (Some (js ''Foo'')) 5" by blast
  then have k1: "lruKeyRaw sample_platform (Some (js '' Foo '')) 5
      = lruKeyRaw sample_platform (Some (js ''Foo'')) 5" by (simp only: pad)
  from T have k2: "lruKeyRaw sample_platform (Some (js '' Foo '')) 5
      = lruKeyRaw sample_platform (Some (js ''foo'')) 5" by blast
  from T low have k3: "lruKeyRaw sample_platform (Some (js ''FOO'')) 5
      = lruKeyRaw sample_platform (Some (js ''foo'')) 5" by blast
  have "(10::int) \<noteq> 5" by simp
  with T inj_decimal
  have k4: "lruKeyRaw sample_platform (Some (js ''foo'')) 10
      \<noteq> lruKeyRaw sample_platform (Some (js ''foo'')) 5"
    by blast
  from k k2 k3 k4 show ?thesis by (simp only: simp_thms)
qed

section \<open>Properties of the cache\<close>

lemma Map_get_delete: "Map_get (Map_delete k c) k = None"
  by (induction c) (auto simp: Map_get_def Map_delete_def)

lemma Map_has_delete: "\<not> Map_has (Map_delete k c) k"
  using Map_get_delete[of k c] by (simp add: Map_has_def Map_get_def)

lemma Map_set_delete: "Map_set k v (Map_delete k c) = Map_delete k c @ [(k, v)]"
  by (simp add: Map_set_def Map_has_delete)

text \<open>What a set leaves under its key is the value it was given, stamped with the clock reading.\<close>

lemma set_delete_oldest: "set (delete_oldest c) \<subseteq> set c"
  by (cases c) (auto simp: delete_oldest_def Map_delete_def)

lemma evict_subset:
  assumes "evict cap0 c0 = Some c0'"
  shows "set c0' \<subseteq> set c0"
proof (rule evict.raw_induct[where P = "\<lambda>_ c c'. set c' \<subseteq> set c", OF _ assms])
  fix ev cap c c'
  assume IH: "\<And>cap c c'. ev cap c = Some c' \<Longrightarrow> set c' \<subseteq> set c"
    and eq: "(if cap < int (length c) then ev cap (delete_oldest c) else Some c) = Some c'"
  show "set c' \<subseteq> set c"
  proof (cases "cap < int (length c)")
    case True
    with eq have "ev cap (delete_oldest c) = Some c'" by simp
    from IH[OF this] have "set c' \<subseteq> set (delete_oldest c)" .
    also have "\<dots> \<subseteq> set c" by (rule set_delete_oldest)
    finally show ?thesis .
  next
    case False
    with eq show ?thesis by simp
  qed
qed

lemma Map_delete_absent: "\<not> Map_has c k \<Longrightarrow> Map_delete k c = c"
  by (induction c) (auto simp: Map_has_def Map_delete_def split: if_splits)

lemma Map_get_in_set: "Map_get c k = Some e \<Longrightarrow> (k, e) \<in> set c"
  by (simp add: Map_get_def map_of_SomeD)

lemma set_Map_delete: "set (Map_delete k c) \<subseteq> set c"
  by (auto simp: Map_delete_def)

lemma set_lruSet:
  assumes "lruSet cfg now c key v = Some c2"
  shows "set c2 \<subseteq> insert (key, \<lparr>items = fst v, metrics = snd v, createdAt = now\<rparr>) (set (Map_delete key c))"
proof -
  have "(if Map_has c key then Map_delete key c else c) = Map_delete key c"
    by (simp add: Map_delete_absent)
  with assms have "evict (CACHE_MAX_ENTRIES cfg)
      (Map_delete key c @ [(key, \<lparr>items = fst v, metrics = snd v, createdAt = now\<rparr>)]) = Some c2"
    by (simp add: lruSet_def Let_def Map_set_delete)
  from evict_subset[OF this] show ?thesis by auto
qed

lemma lruSet_stored:
  assumes "lruSet cfg now c key v = Some c2" and "Map_get c2 key = Some e"
  shows "e = \<lparr>items = fst v, metrics = snd v, createdAt = now\<rparr>"
proof -
  from Map_get_in_set[OF assms(2)] set_lruSet[OF assms(1)]
  have "(key, e) \<in> insert (key, \<lparr>items = fst v, metrics = snd v, createdAt = now\<rparr>) (set (Map_delete key c))"
    by blast
  then show ?thesis by (auto simp: Map_delete_def)
qed

text \<open>
  C3. An entry found under a key after \<open>lruSet\<close> at clock reading \<open>t0\<close> carries
  \<open>createdAt = t0\<close>. With a positive TTL \<open>T\<close>, an entry stamped \<open>t0\<close> is returned by a
  get at \<open>t0 + T - 1\<close> (and moved to the recency tail), while a get at \<open>t0 + T + 1\<close>
  returns \<open>null\<close> and leaves the cache without the key. A get on an absent key returns
  \<open>null\<close> and changes nothing. With TTL 0 an entry is returned at every clock reading.
\<close>

theorem lruGet_ttl:
  "(lruSet cfg t0 c0 key v = Some c \<and> Map_get c key = Some e \<longrightarrow>
      e = \<lparr>items = fst v, metrics = snd v, createdAt = t0\<rparr>)
   \<and> (Map_get c key = Some e \<and> 0 < CACHE_TTL_MS cfg \<longrightarrow>
      lruGet cfg (createdAt e + CACHE_TTL_MS cfg - 1) c key
        = (Some e, Map_delete key c @ [(key, e)])
      \<and> lruGet cfg (createdAt e + CACHE_TTL_MS cfg + 1) c key = (None, Map_delete key c)
      \<and> Map_get (Map_delete key c) key = None)
   \<and> (Map_get c key = None \<longrightarrow> lruGet cfg now c key = (None, c))
   \<and> (Map_get c key = Some e \<and> CACHE_TTL_MS cfg = 0 \<longrightarrow>
      lruGet cfg now c key = (Some e, Map_delete key c @ [(key, e)]))"
proof (intro conjI impI)
  assume "lruSet cfg t0 c0 key v = Some c \<and> Map_get c key = Some e"
  then show "e = \<lparr>items = fst v, metrics = snd v, createdAt = t0\<rparr>"
    using lruSet_stored by blast
qed (simp_all add: lruGet_def Map_set_delete Map_get_delete)

text \<open>
  The entry of the witness is put in by \<open>lruSet\<close> at clock reading 5000, under TTL 1000.
\<close>

theorem lruGet_ttl_witness:
  "lruSet sample_cfg 5000 [] (js ''foo+5'') ([], sample_metrics)
     = Some [(js ''foo+5'', sample_entry 5000)]
   \<and> lruGet sample_cfg 5999 [(js ''foo+5'', sample_entry 5000)] (js ''foo+5'')
     = (Some (sample_entry 5000), [(js ''foo+5'', sample_entry 5000)])
   \<and> lruGet sample_cfg 6001 [(js ''foo+5'', sample_entry 5000)] (js ''foo+5'') = (None, [])
   \<and> lruGet sample_cfg 6001 [] (js ''foo+5'') = (None, [])
   \<and> lruGet (sample_cfg\<lparr>CACHE_TTL_MS := 0\<rparr>) 999999 [(js ''foo+5'', sample_entry 5000)]
       (js ''foo+5'')
     = (Some (sample_entry 5000), [(js ''foo+5'', sample_entry 5000)])"
proof -
  let ?k = "js ''foo+5''"
  let ?c = "[(?k, sample_entry 5000)]"
  have s: "lruSet sample_cfg 5000 [] ?k ([], sample_metrics) = Some ?c"
    by (simp add: sample_cfg_def sample_entry_def lruSet_def Map_has_def Map_set_def
        evict.simps)
  have g: "Map_get ?c ?k = Some (sample_entry 5000)"
    by (simp add: Map_get_def)
  have d: "Map_delete ?k ?c = []"
    by (simp add: Map_delete_def)
  have t: "0 < CACHE_TTL_MS sample_cfg" "CACHE_TTL_MS sample_cfg = 1000"
    "createdAt (sample_entry 5000) = 5000" "CACHE_TTL_MS (sample_cfg\<lparr>CACHE_TTL_MS := 0\<rparr>) = 0"
    by (simp_all add: sample_cfg_def sample_entry_def)
  note a = lruGet_ttl [where c = ?c and key = ?k and e = "sample_entry 5000" and cfg = sample_cfg
      and now = 0 and ?t0.0 = 5000 and ?c0.0 = "[]" and v = "([], sample_metrics)"]
  note b = lruGet_ttl [where c = "[]" and key = ?k and e = "sample_entry 5000" and cfg = sample_cfg
      and now = 6001 and ?t0.0 = 5000 and ?c0.0 = "[]" and v = "([], sample_metrics)"]
  note c = lruGet_ttl [where c = ?c and key = ?k and e = "sample_entry 5000"
      and cfg = "sample_cfg\<lparr>CACHE_TTL_MS := 0\<rparr>" and now = 999999 and ?t0.0 = 5000
      and ?c0.0 = "[]" and v = "([], sample_metrics)"]
  from a g t(1) have "lruGet sample_cfg (createdAt (sample_entry 5000) + CACHE_TTL_MS sample_cfg - 1) ?c ?k
      = (Some (sample_entry 5000), Map_delete ?k ?c @ [(?k, sample_entry 5000)])
    \<and> lruGet sample_cfg (createdAt (sample_entry 5000) + CACHE_TTL_MS sample_cfg + 1) ?c ?k
      = (None, Map_delete ?k ?c)"
    by blast
  then have "lruGet sample_cfg 5999 ?c ?k = (Some (sample_entry 5000), ?c)"
    "lruGet sample_cfg 6001 ?c ?k = (None, [])"
    by (simp_all add: t d)
  moreover from b have "lruGet sample_cfg 6001 [] ?k = (None, [])"
    by (simp add: Map_get_def)
  moreover from c g t(4) have "lruGet (sample_cfg\<lparr>CACHE_TTL_MS := 0\<rparr>) 999999 ?c ?k
      = (Some (sample_entry 5000), Map_delete ?k ?c @ [(?k, sample_entry 5000)])"
    by blast
  then have "lruGet (sample_cfg\<lparr>CACHE_TTL_MS := 0\<rparr>) 999999 ?c ?k
      = (Some (sample_entry 5000), ?c)"
    by (simp add: d)
  ultimately show ?thesis using s by simp
qed

lemma delete_oldest_Cons:
  "k \<notin> fst ` set c \<Longrightarrow> delete_oldest ((k, e) # c) = c"
  by (auto simp: delete_oldest_def Map_delete_def filter_id_conv)

text \<open>
  With a capacity that is not negative the eviction loop returns: it drops entries from
  the front of the map, oldest first, until the size fits.
\<close>

lemma evict_drop:
  "0 \<le> cap \<Longrightarrow> distinct (map fst c) \<Longrightarrow> evict cap c = Some (drop (length c - nat cap) c)"
proof (induction c)
  case Nil
  then show ?case by (simp add: evict.simps)
next
  case (Cons kv c)
  obtain k e where kv: "kv = (k, e)" by (cases kv)
  from Cons.prems have d: "distinct (map fst c)" and nk: "k \<notin> fst ` set c"
    by (auto simp: kv)
  show ?case
  proof (cases "int (length (kv # c)) > cap")
    case True
    then have "evict cap (kv # c) = evict cap c"
      by (subst evict.simps) (simp add: kv delete_oldest_Cons[OF nk])
    also have "\<dots> = Some (drop (length c - nat cap) c)"
      using Cons.IH[OF Cons.prems(1) d] .
    also from True Cons.prems(1)
    have "drop (length c - nat cap) c = drop (length (kv # c) - nat cap) (kv # c)"
      by (simp add: Suc_diff_le nat_le_iff)
    finally show ?thesis .
  next
    case False
    then show ?thesis by (subst evict.simps) simp
  qed
qed

lemma distinct_Map_delete: "distinct (map fst c) \<Longrightarrow> distinct (map fst (Map_delete k c))"
  by (simp add: Map_delete_def distinct_map_filter)

lemma fst_Map_delete: "fst ` set (Map_delete k c) = fst ` set c - {k}"
  by (auto simp: Map_delete_def)

lemma Map_delete_append: "Map_delete k (xs @ ys) = Map_delete k xs @ Map_delete k ys"
  by (simp add: Map_delete_def)

lemma lruSet_drop:
  assumes "0 \<le> CACHE_MAX_ENTRIES cfg" and "distinct (map fst c)"
  shows "lruSet cfg now c k v =
    Some (let c' = Map_delete k c @ [(k, \<lparr>items = fst v, metrics = snd v, createdAt = now\<rparr>)]
          in drop (length c' - nat (CACHE_MAX_ENTRIES cfg)) c')"
proof -
  let ?e = "\<lparr>items = fst v, metrics = snd v, createdAt = now\<rparr>"
  have c1: "(if Map_has c k then Map_delete k c else c) = Map_delete k c"
    by (simp add: Map_delete_absent)
  have d: "distinct (map fst (Map_delete k c @ [(k, ?e)]))"
    using distinct_Map_delete[OF assms(2), of k] by (simp add: fst_Map_delete)
  show ?thesis
    unfolding lruSet_def Let_def c1 Map_set_delete
    using evict_drop[OF assms(1) d] by simp
qed

lemma lruGet_fresh:
  "Map_get c k = Some e \<Longrightarrow> \<not> (0 < CACHE_TTL_MS cfg \<and> CACHE_TTL_MS cfg < now - createdAt e)
   \<Longrightarrow> lruGet cfg now c k = (Some e, Map_delete k c @ [(k, e)])"
  by (auto simp: lruGet_def Map_set_delete)

lemma set_set_get_set:
  assumes d: "distinct (map fst c)" and cap: "CACHE_MAX_ENTRIES cfg = 2"
    and ne: "A \<noteq> B" "A \<noteq> C" "B \<noteq> C"
    and fresh: "\<not> (0 < CACHE_TTL_MS cfg \<and> CACHE_TTL_MS cfg < t3 - t1)"
  shows "do {
      c1 \<leftarrow> lruSet cfg t1 c A vA;
      c2 \<leftarrow> lruSet cfg t2 c1 B vB;
      let (r, c3) = lruGet cfg t3 c2 A;
      c4 \<leftarrow> lruSet cfg t4 c3 C vC;
      Some (r, c4)
    } = Some (Some \<lparr>items = fst vA, metrics = snd vA, createdAt = t1\<rparr>,
        [(A, \<lparr>items = fst vA, metrics = snd vA, createdAt = t1\<rparr>),
         (C, \<lparr>items = fst vC, metrics = snd vC, createdAt = t4\<rparr>)])"
proof -
  let ?eA = "\<lparr>items = fst vA, metrics = snd vA, createdAt = t1\<rparr>"
  let ?eB = "\<lparr>items = fst vB, metrics = snd vB, createdAt = t2\<rparr>"
  let ?eC = "\<lparr>items = fst vC, metrics = snd vC, createdAt = t4\<rparr>"
  have cap0: "0 \<le> CACHE_MAX_ENTRIES cfg" by (simp add: cap)
  define xs where "xs = drop (length (Map_delete A c) - 1) (Map_delete A c)"
  have s1: "lruSet cfg t1 c A vA = Some (xs @ [(A, ?eA)])"
    by (simp add: lruSet_drop[OF cap0 d] cap xs_def Let_def Suc_diff_Suc)
  have dx: "distinct (map fst xs)"
    unfolding xs_def using distinct_Map_delete[OF d, of A] by (simp flip: drop_map)
  have "set xs \<subseteq> set (Map_delete A c)"
    unfolding xs_def by (rule set_drop_subset)
  then have "A \<notin> fst ` set xs"
    using fst_Map_delete[of A c] by auto
  with dx have dxs: "distinct (map fst (xs @ [(A, ?eA)]))"
    by simp
  have s2: "lruSet cfg t2 (xs @ [(A, ?eA)]) B vB = Some [(A, ?eA), (B, ?eB)]"
    using ne by (simp add: lruSet_drop[OF cap0 dxs] cap Let_def Map_delete_append Map_delete_def)
  have g: "lruGet cfg t3 [(A, ?eA), (B, ?eB)] A = (Some ?eA, [(B, ?eB), (A, ?eA)])"
    using ne fresh by (subst lruGet_fresh[where e = ?eA]) (auto simp: Map_get_def Map_delete_def)
  have s3: "lruSet cfg t4 [(B, ?eB), (A, ?eA)] C vC = Some [(A, ?eA), (C, ?eC)]"
    using ne by (subst lruSet_drop[OF cap0]) (auto simp: cap Let_def Map_delete_def)
  show ?thesis by (simp add: s1 s2 g s3)
qed

text \<open>
  C4. (1) A get that finds a fresh entry returns it and re-inserts it at the recency
  tail. (2) On a cache with unique keys and a capacity that is not negative, a set
  returns, stamps the value with the clock reading, puts it at the tail and drops entries
  from the old end until the size is within the capacity. (3) With capacity 2, on any
  cache with unique keys, the calls set(A); set(B); get(A); set(C) on three different
  keys (the get finding A fresh) all return and leave exactly A and C in the cache, in
  this order: B is gone, A and C are still there.
\<close>

theorem lru_recency:
  "(Map_get c k = Some e \<and> \<not> (0 < CACHE_TTL_MS cfg \<and> CACHE_TTL_MS cfg < now - createdAt e) \<longrightarrow>
      lruGet cfg now c k = (Some e, Map_delete k c @ [(k, e)]))
   \<and> (distinct (map fst c) \<and> 0 \<le> CACHE_MAX_ENTRIES cfg \<longrightarrow>
      lruSet cfg now c k v =
        Some (let c' = Map_delete k c @ [(k, \<lparr>items = fst v, metrics = snd v, createdAt = now\<rparr>)]
              in drop (length c' - nat (CACHE_MAX_ENTRIES cfg)) c'))
   \<and> (distinct (map fst c) \<and> CACHE_MAX_ENTRIES cfg = 2 \<and> A \<noteq> B \<and> A \<noteq> C \<and> B \<noteq> C
        \<and> \<not> (0 < CACHE_TTL_MS cfg \<and> CACHE_TTL_MS cfg < t3 - t1) \<longrightarrow>
      (let eA = \<lparr>items = fst vA, metrics = snd vA, createdAt = t1\<rparr>;
           eC = \<lparr>items = fst vC, metrics = snd vC, createdAt = t4\<rparr>;
           final = [(A, eA), (C, eC)]
       in do {
            c1 \<leftarrow> lruSet cfg t1 c A vA;
            c2 \<leftarrow> lruSet cfg t2 c1 B vB;
            let (r, c3) = lruGet cfg t3 c2 A;
            c4 \<leftarrow> lruSet cfg t4 c3 C vC;
            Some (r, c4)
          } = Some (Some eA, final)
          \<and> Map_get final B = None \<and> Map_get final A = Some eA \<and> Map_get final C = Some eC))"
proof (intro conjI impI)
  assume "Map_get c k = Some e \<and> \<not> (0 < CACHE_TTL_MS cfg \<and> CACHE_TTL_MS cfg < now - createdAt e)"
  then show "lruGet cfg now c k = (Some e, Map_delete k c @ [(k, e)])"
    using lruGet_fresh by blast
next
  assume "distinct (map fst c) \<and> 0 \<le> CACHE_MAX_ENTRIES cfg"
  then show "lruSet cfg now c k v =
      Some (let c' = Map_delete k c @ [(k, \<lparr>items = fst v, metrics = snd v, createdAt = now\<rparr>)]
            in drop (length c' - nat (CACHE_MAX_ENTRIES cfg)) c')"
    using lruSet_drop by blast
next
  assume a: "distinct (map fst c) \<and> CACHE_MAX_ENTRIES cfg = 2 \<and> A \<noteq> B \<and> A \<noteq> C \<and> B \<noteq> C
      \<and> \<not> (0 < CACHE_TTL_MS cfg \<and> CACHE_TTL_MS cfg < t3 - t1)"
  then have "do {
      c1 \<leftarrow> lruSet cfg t1 c A vA;
      c2 \<leftarrow> lruSet cfg t2 c1 B vB;
      let (r, c3) = lruGet cfg t3 c2 A;
      c4 \<leftarrow> lruSet cfg t4 c3 C vC;
      Some (r, c4)
    } = Some (Some \<lparr>items = fst vA, metrics = snd vA, createdAt = t1\<rparr>,
        [(A, \<lparr>items = fst vA, metrics = snd vA, createdAt = t1\<rparr>),
         (C, \<lparr>items = fst vC, metrics = snd vC, createdAt = t4\<rparr>)])"
    by (intro set_set_get_set) simp_all
  with a show "let eA = \<lparr>items = fst vA, metrics = snd vA, createdAt = t1\<rparr>;
           eC = \<lparr>items = fst vC, metrics = snd vC, createdAt = t4\<rparr>;
           final = [(A, eA), (C, eC)]
       in do {
            c1 \<leftarrow> lruSet cfg t1 c A vA;
            c2 \<leftarrow> lruSet cfg t2 c1 B vB;
            let (r, c3) = lruGet cfg t3 c2 A;
            c4 \<leftarrow> lruSet cfg t4 c3 C vC;
            Some (r, c4)
          } = Some (Some eA, final)
          \<and> Map_get final B = None \<and> Map_get final A = Some eA \<and> Map_get final C = Some eC"
    by (auto simp: Let_def Map_get_def)
qed

theorem lru_recency_witness:
  "lruGet sample_cfg 5200 [(js ''a+1'', sample_entry 5000), (js ''b+1'', sample_entry 5100)]
       (js ''a+1'')
     = (Some (sample_entry 5000), [(js ''b+1'', sample_entry 5100), (js ''a+1'', sample_entry 5000)])
   \<and> lruSet sample_cfg 5200 [(js ''a+1'', sample_entry 5000), (js ''b+1'', sample_entry 5100)]
       (js ''a+1'') ([], sample_metrics)
     = Some [(js ''b+1'', sample_entry 5100), (js ''a+1'', sample_entry 5200)]
   \<and> do {
        c1 \<leftarrow> lruSet sample_cfg 6000
          [(js ''a+1'', sample_entry 5000), (js ''b+1'', sample_entry 5100)]
          (js ''x+1'') ([], sample_metrics);
        c2 \<leftarrow> lruSet sample_cfg 6100 c1 (js ''y+1'') ([], sample_metrics);
        let (r, c3) = lruGet sample_cfg 6200 c2 (js ''x+1'');
        c4 \<leftarrow> lruSet sample_cfg 6300 c3 (js ''z+1'') ([], sample_metrics);
        Some (r, c4)
      } = Some (Some (sample_entry 6000),
            [(js ''x+1'', sample_entry 6000), (js ''z+1'', sample_entry 6300)])
   \<and> Map_get [(js ''x+1'', sample_entry 6000), (js ''z+1'', sample_entry 6300)] (js ''y+1'') = None"
  using lru_recency [where c = "[(js ''a+1'', sample_entry 5000), (js ''b+1'', sample_entry 5100)]"
      and k = "js ''a+1''" and e = "sample_entry 5000" and cfg = sample_cfg and now = 5200
      and v = "([], sample_metrics)"
      and A = "js ''x+1''" and B = "js ''y+1''" and C = "js ''z+1''"
      and ?t1.0 = 6000 and ?t2.0 = 6100 and ?t3.0 = 6200 and ?t4.0 = 6300
      and vA = "([], sample_metrics)" and vB = "([], sample_metrics)"
      and vC = "([], sample_metrics)"]
  by (simp add: sample_cfg_def sample_entry_def js_def Map_get_def Map_delete_def Let_def)

section \<open>Properties of the text matcher and the annotation\<close>

lemma latin1_decompose1_below: "c < 192 \<Longrightarrow> latin1_decompose1 c = [c]"
  by (simp add: latin1_decompose1_def)

lemma latin1_decompose1_e_acute: "latin1_decompose1 233 = [101, 769]"
  by (simp add: latin1_decompose1_def)

lemmas norm_eval = contains_def norm_def builtin_eval isLowSurrogate_def
  latin1_decompose1_below latin1_decompose1_e_acute

lemma includes_str_sublist: "includes_str h n \<longleftrightarrow> sublist n h"
  by (induction h) (auto simp: sublist_Cons_right)

lemma contains_iff: "contains P h n \<longleftrightarrow> norm P n \<noteq> [] \<and> sublist (norm P n) (norm P h)"
  by (simp add: contains_def Let_def includes_str_sublist)

lemma mentioned_iff:
  "mentioned P v kw \<longleftrightarrow>
     norm P kw \<noteq> [] \<and>
     (sublist (norm P kw) (norm P (description v))
      \<or> (\<exists>c \<in> set (case comments v of None \<Rightarrow> [] | Some cs \<Rightarrow> cs).
            sublist (norm P kw) (norm P (Some (c_text c)))))"
  by (auto simp: mentioned_def contains_iff list_ex_iff)

text \<open>Two texts with one normal form match alike, as the text searched and as the keyword.\<close>

lemma contains_cong:
  "norm P (Some a) = norm P (Some b) \<Longrightarrow>
   contains P (Some a) k = contains P (Some b) k \<and> contains P h (Some a) = contains P h (Some b)"
  by (simp add: contains_def)

text \<open>
  C1 (as amended). The normal form of a text is its lower-casing, canonically
  decomposed, without the code points that have the property Diacritic. Annotation
  keeps the items and their order and sets each item's \<open>keywordMentioned\<close> to: the
  normal form of the keyword is not empty and occurs as a contiguous substring in the
  normal form of the description or of the text of some comment. Matching does not see
  case: two texts with one lower-casing match alike, as the text searched and as the
  keyword. Matching does not see diacritics: two texts whose lower-cased decompositions
  differ only in code points with the property Diacritic match alike. The matcher
  accepts \<open>"caf\<acute>e"\<close> (with U+00E9) against \<open>"cafe"\<close>, and \<open>"CAFE"\<close> against
  \<open>"cafe"\<close>.
\<close>

theorem annotate_keywordMentioned:
  "norm P t =
     stripDiacritics P (normalizeNFD P (toLowerCase P (case t of None \<Rightarrow> [] | Some x \<Rightarrow> x)))
   \<and> length (annotate P vs kw) = length vs
   \<and> (\<forall>i < length vs.
        annotate P vs kw ! i =
          (vs ! i)\<lparr>keywordMentioned :=
            Some (norm P kw \<noteq> [] \<and>
                  (sublist (norm P kw) (norm P (description (vs ! i)))
                   \<or> (\<exists>c \<in> set (case comments (vs ! i) of None \<Rightarrow> [] | Some cs \<Rightarrow> cs).
                         sublist (norm P kw) (norm P (Some (c_text c))))))\<rparr>)
   \<and> (toLowerCase P a = toLowerCase P b
        \<longrightarrow> contains P (Some a) k = contains P (Some b) k
            \<and> contains P h (Some a) = contains P h (Some b))
   \<and> (filter (\<lambda>cp. \<not> isDiacritic P cp) (codePoints (normalizeNFD P (toLowerCase P a)))
        = filter (\<lambda>cp. \<not> isDiacritic P cp) (codePoints (normalizeNFD P (toLowerCase P b)))
        \<longrightarrow> contains P (Some a) k = contains P (Some b) k
            \<and> contains P h (Some a) = contains P h (Some b))
   \<and> contains P (Some [99, 97, 102, 233]) (Some (js ''cafe''))
   \<and> contains P (Some (js ''CAFE'')) (Some (js ''cafe''))"
proof -
  have ann: "\<forall>i < length vs.
        annotate P vs kw ! i =
          (vs ! i)\<lparr>keywordMentioned :=
            Some (norm P kw \<noteq> [] \<and>
                  (sublist (norm P kw) (norm P (description (vs ! i)))
                   \<or> (\<exists>c \<in> set (case comments (vs ! i) of None \<Rightarrow> [] | Some cs \<Rightarrow> cs).
                         sublist (norm P kw) (norm P (Some (c_text c))))))\<rparr>"
    by (simp add: annotate_def mentioned_iff)
  have lower: "toLowerCase P a = toLowerCase P b
        \<longrightarrow> contains P (Some a) k = contains P (Some b) k
            \<and> contains P h (Some a) = contains P h (Some b)"
  proof
    assume "toLowerCase P a = toLowerCase P b"
    then have "norm P (Some a) = norm P (Some b)" by (simp add: norm_def)
    then show "contains P (Some a) k = contains P (Some b) k
            \<and> contains P h (Some a) = contains P h (Some b)" by (rule contains_cong)
  qed
  have dia: "filter (\<lambda>cp. \<not> isDiacritic P cp) (codePoints (normalizeNFD P (toLowerCase P a)))
        = filter (\<lambda>cp. \<not> isDiacritic P cp) (codePoints (normalizeNFD P (toLowerCase P b)))
        \<longrightarrow> contains P (Some a) k = contains P (Some b) k
            \<and> contains P h (Some a) = contains P h (Some b)"
  proof
    assume "filter (\<lambda>cp. \<not> isDiacritic P cp) (codePoints (normalizeNFD P (toLowerCase P a)))
        = filter (\<lambda>cp. \<not> isDiacritic P cp) (codePoints (normalizeNFD P (toLowerCase P b)))"
    then have "norm P (Some a) = norm P (Some b)" by (simp add: norm_def stripDiacritics_def)
    then show "contains P (Some a) k = contains P (Some b) k
            \<and> contains P h (Some a) = contains P h (Some b)" by (rule contains_cong)
  qed
  have n: "norm P (Some [99, 97, 102, 233]) = js ''cafe''"
    "norm P (Some (js ''CAFE'')) = js ''cafe''"
    "norm P (Some (js ''cafe'')) = js ''cafe''"
    by (simp_all add: norm_def toLowerCase_def normalizeNFD_def stripDiacritics_def
        isLatin1_def latin1_lower1_def isDiacritic_def codeUnits_def isHighSurrogate_def js_def
        latin1_decompose1_below latin1_decompose1_e_acute)
  have "js ''cafe'' \<noteq> []" by (simp add: js_def)
  then have cafe: "contains P (Some [99, 97, 102, 233]) (Some (js ''cafe''))"
    "contains P (Some (js ''CAFE'')) (Some (js ''cafe''))"
    by (simp_all add: contains_iff n)
  have "norm P t =
     stripDiacritics P (normalizeNFD P (toLowerCase P (case t of None \<Rightarrow> [] | Some x \<Rightarrow> x)))"
    by (simp add: norm_def)
  moreover have "length (annotate P vs kw) = length vs" by (simp add: annotate_def)
  ultimately show ?thesis using ann lower dia cafe by blast
qed

theorem annotate_keywordMentioned_witness:
  "annotate sample_platform [sample_video] (Some (js ''body''))
     = [sample_video\<lparr>keywordMentioned := Some True\<rparr>]
   \<and> annotate sample_platform [sample_video] (Some (js ''FACT''))
     = [sample_video\<lparr>keywordMentioned := Some True\<rparr>]
   \<and> annotate sample_platform [sample_video] (Some (js ''cat''))
     = [sample_video\<lparr>keywordMentioned := Some False\<rparr>]
   \<and> contains sample_platform (Some (js ''A FACT'')) (Some (js ''FACT''))
   \<and> contains sample_platform (Some [233, 116, 233]) (Some (js ''ete''))"
proof -
  note T = annotate_keywordMentioned [where P = sample_platform and vs = "[sample_video]"
      and kw = "Some (js ''body'')" and t = "Some (js ''body'')"
      and h = "Some (js ''A FACT'')" and k = "Some (js ''ete'')"
      and a = "js ''FACT''" and b = "js ''fact''"]
  note U = annotate_keywordMentioned [where P = sample_platform and vs = "[sample_video]"
      and kw = "Some (js ''body'')" and t = "Some (js ''body'')"
      and h = "Some (js ''A FACT'')" and k = "Some (js ''ete'')"
      and a = "[233, 116, 233]" and b = "js ''ete''"]
  have e: "annotate sample_platform [sample_video] (Some (js ''FACT''))
       = [sample_video\<lparr>keywordMentioned := Some True\<rparr>]"
    "annotate sample_platform [sample_video] (Some (js ''cat''))
       = [sample_video\<lparr>keywordMentioned := Some False\<rparr>]"
    by (simp_all add: annotate_def mentioned_def norm_eval sample_video_def)
  have n: "norm sample_platform (Some (js ''body'')) = js ''body''"
    "norm sample_platform (description sample_video) = js ''fun fact''"
    "comments sample_video = Some [\<lparr>c_username = js ''bob'', c_text = js ''My BODY'',
       c_time = None, c_likes = Some 3\<rparr>]"
    "norm sample_platform (Some (js ''My BODY'')) = js ''my body''"
    by (simp_all add: norm_eval sample_video_def)
  have sub: "sublist (js ''body'') (js ''my body'')"
    by (simp add: js_def includes_str_sublist[symmetric])
  have ne: "js ''body'' \<noteq> []" by (simp add: js_def)
  from T have "annotate sample_platform [sample_video] (Some (js ''body'')) ! 0 =
          ([sample_video] ! 0)\<lparr>keywordMentioned :=
            Some (norm sample_platform (Some (js ''body'')) \<noteq> [] \<and>
                  (sublist (norm sample_platform (Some (js ''body'')))
                     (norm sample_platform (description ([sample_video] ! 0)))
                   \<or> (\<exists>c \<in> set (case comments ([sample_video] ! 0) of None \<Rightarrow> [] | Some cs \<Rightarrow> cs).
                         sublist (norm sample_platform (Some (js ''body'')))
                           (norm sample_platform (Some (c_text c))))))\<rparr>"
    by simp
  then have "annotate sample_platform [sample_video] (Some (js ''body'')) ! 0
      = sample_video\<lparr>keywordMentioned := Some True\<rparr>"
    using sub ne by (simp add: n)
  moreover from T have "length (annotate sample_platform [sample_video] (Some (js ''body''))) = 1"
    by simp
  ultimately have b: "annotate sample_platform [sample_video] (Some (js ''body''))
     = [sample_video\<lparr>keywordMentioned := Some True\<rparr>]"
    by (cases "annotate sample_platform [sample_video] (Some (js ''body''))") simp_all
  have low: "toLowerCase sample_platform (js ''FACT'') = toLowerCase sample_platform (js ''fact'')"
    by (simp add: builtin_eval)
  have c0: "contains sample_platform (Some (js ''A FACT'')) (Some (js ''fact''))"
    "contains sample_platform (Some (js ''ete'')) (Some (js ''ete''))"
    by (simp_all add: norm_eval)
  from T low have "contains sample_platform (Some (js ''A FACT'')) (Some (js ''FACT''))
      = contains sample_platform (Some (js ''A FACT'')) (Some (js ''fact''))" by blast
  with c0 have c2: "contains sample_platform (Some (js ''A FACT'')) (Some (js ''FACT''))"
    by simp
  have dia: "filter (\<lambda>cp. \<not> isDiacritic sample_platform cp)
         (codePoints (normalizeNFD sample_platform (toLowerCase sample_platform [233, 116, 233])))
       = filter (\<lambda>cp. \<not> isDiacritic sample_platform cp)
         (codePoints (normalizeNFD sample_platform (toLowerCase sample_platform (js ''ete''))))"
    by (simp add: norm_eval)
  from U dia have "contains sample_platform (Some [233, 116, 233]) (Some (js ''ete''))
      = contains sample_platform (Some (js ''ete'')) (Some (js ''ete''))" by blast
  with c0 have c1: "contains sample_platform (Some [233, 116, 233]) (Some (js ''ete''))" by simp
  with b e c2 show ?thesis by simp
qed

text \<open>
  C1 as stated fails where the normal form of the keyword is empty: the empty string
  is a substring of every normal form, yet the flag is false. This happens for the empty
  keyword and for a keyword made of diacritics only, such as \<open>"^"\<close> (U+005E has the
  property Diacritic), even when it occurs literally in the description.
\<close>

theorem annotate_empty_keyword_counterexample:
  "map keywordMentioned (annotate sample_platform [sample_video] (Some [])) = [Some False]
   \<and> sublist (norm sample_platform (Some [])) (norm sample_platform (description sample_video))
   \<and> map keywordMentioned
       (annotate sample_platform [sample_video\<lparr>description := Some (js ''2^10'')\<rparr>] (Some (js ''^'')))
     = [Some False]
   \<and> sublist (norm sample_platform (Some (js ''^''))) (norm sample_platform (Some (js ''2^10'')))"
  by (simp add: annotate_def mentioned_def norm_eval sample_video_def)

lemma contains_empty_needle: "norm P needle = [] \<Longrightarrow> \<not> contains P h needle"
  by (simp add: contains_def)

lemma norm_empty: "norm P None = []" "norm P (Some []) = []"
  by (simp_all add: norm_def toLowerCase_def normalizeNFD_def stripDiacritics_def isLatin1_def)

lemma annotate_empty_norm:
  "norm P kw = [] \<Longrightarrow> annotate P vs kw = map (\<lambda>v. v\<lparr>keywordMentioned := Some False\<rparr>) vs"
  by (simp add: annotate_def mentioned_def contains_empty_needle list_ex_iff)

lemma respond_empty_norm:
  "norm P kw = [] \<Longrightarrow>
   respond P key raw kw True fc = \<lparr>r_key = key, r_items = [], r_metrics = metrics raw, r_fromCache = fc\<rparr>"
  by (simp add: respond_def annotate_empty_norm filter_empty_conv)

section \<open>Properties of the request\<close>

lemma item_of_sample_info: "item_of_info sample_info = sample_video"
  by (simp add: item_of_info_def sample_info_def sample_video_def)

lemma sample_video_fields:
  "description sample_video = Some (js ''Fun fact'')"
  "comments sample_video = Some [\<lparr>c_username = js ''bob'', c_text = js ''My BODY'', c_time = None,
                         c_likes = Some 3\<rparr>]"
  "keywordMentioned sample_video = None"
  by (simp_all add: sample_video_def)

lemma key_foo: "lruKeyRaw sample_platform (Some (js ''foo'')) 5 = js ''foo+5''"
  by (simp add: lruKeyRaw_def builtin_eval trim_def isWhiteSpace_def decimal_def digits.simps)

lemma build_foo: "buildSearchUrl URL_simple (Some (js ''foo'')) = Inr (js ''https://www.tiktok.com/search?q=foo'')"
  by (simp add: buildSearchUrl_def js_def trim_def isWhiteSpace_def isHttpUrl_def asciiLower_def
      searchUrlFor_def unreserved_def)

lemma scrape_foo:
  "scrapeFromSearch URL_simple sample_browser (Some (js ''foo'')) 5
     = Some (Inr ([sample_video], sample_metrics\<lparr>videosScraped := 1\<rparr>))"
  by (simp add: scrapeFromSearch_def build_foo sample_browser_def item_of_sample_info)

lemma mentions_eval:
  "mentioned sample_platform sample_video (Some (js ''body''))"
  "\<not> mentioned sample_platform sample_video (Some (js ''cat''))"
  by (simp_all add: mentioned_def sample_video_fields norm_eval)

lemma annotate_sample:
  "annotate sample_platform [sample_video] (Some (js ''body'')) = [sample_video\<lparr>keywordMentioned := Some True\<rparr>]"
  "annotate sample_platform [sample_video] (Some (js ''cat'')) = [sample_video\<lparr>keywordMentioned := Some False\<rparr>]"
  by (simp_all add: annotate_def mentions_eval)

text \<open>The shape of every response: the annotated view of the hit or of the fresh scrape.\<close>

lemma scrapeAnnotateAndCache_hit:
  "\<not> fr \<Longrightarrow> lruGet cfg now c (lruKeyRaw P search n) = (Some raw, c1) \<Longrightarrow>
   scrapeAnnotateAndCache cfg P U b now now' c search kw n sh fr
     = Some (Inr (respond P (lruKeyRaw P search n) raw kw sh True), c1)"
  by (simp add: scrapeAnnotateAndCache_def)

lemma scrapeAnnotateAndCache_miss:
  "(if \<not> fr then lruGet cfg now c (lruKeyRaw P search n) else (None, c)) = (None, c1) \<Longrightarrow>
   scrapeAnnotateAndCache cfg P U b now now' c search kw n sh fr
     = (case scrapeFromSearch U b search n of
          None \<Rightarrow> None
        | Some (Inl e) \<Rightarrow> Some (Inl e, c1)
        | Some (Inr (its, m)) \<Rightarrow>
            (case lruSet cfg now' c1 (lruKeyRaw P search n) (its, m) of
               None \<Rightarrow> None
             | Some c2 \<Rightarrow>
                 Some (Inr (respond P (lruKeyRaw P search n)
                              \<lparr>items = its, metrics = m, createdAt = now'\<rparr> kw sh False), c2)))"
  by (simp add: scrapeAnnotateAndCache_def Let_def)

lemma scrapeAnnotateAndCache_Inr:
  assumes "scrapeAnnotateAndCache cfg P U b now now' c search kw n sh fr = Some (Inr r, c')"
  shows "\<exists>raw fc. r = respond P (lruKeyRaw P search n) raw kw sh fc"
proof -
  obtain hit c1 where g: "(if \<not> fr then lruGet cfg now c (lruKeyRaw P search n) else (None, c)) = (hit, c1)"
    by (cases "if \<not> fr then lruGet cfg now c (lruKeyRaw P search n) else (None, c)")
  show ?thesis
  proof (cases hit)
    case (Some raw)
    with g have "\<not> fr" "lruGet cfg now c (lruKeyRaw P search n) = (Some raw, c1)"
      by (auto split: if_splits)
    from scrapeAnnotateAndCache_hit[OF this] assms
    have "r = respond P (lruKeyRaw P search n) raw kw sh True" by simp
    then show ?thesis by blast
  next
    case None
    with g have "(if \<not> fr then lruGet cfg now c (lruKeyRaw P search n) else (None, c)) = (None, c1)"
      by simp
    from scrapeAnnotateAndCache_miss[OF this, of U b now' kw sh] assms show ?thesis
      by (auto split: option.splits sum.splits prod.splits)
  qed
qed

text \<open>
  C10. The matcher rejects every needle whose normalized form is empty. With an absent or
  empty keyword, annotation marks every item \<open>keywordMentioned = false\<close>; a request
  with \<open>showVideoOnlyWithMatchKeyword = true\<close> that returns a response returns it with
  an empty item list, and it does return one on a cache hit and after a scrape that
  succeeds and is stored.
\<close>

theorem empty_keyword_matches_nothing:
  "(norm P needle = [] \<longrightarrow> \<not> contains P h needle)
   \<and> (kw = None \<or> kw = Some [] \<longrightarrow>
        annotate P vs kw = map (\<lambda>v. v\<lparr>keywordMentioned := Some False\<rparr>) vs
        \<and> (scrapeAnnotateAndCache cfg P U b now now' c search kw n True fr = Some (Inr r, c')
             \<longrightarrow> r_items r = [])
        \<and> (\<not> fr \<and> lruGet cfg now c (lruKeyRaw P search n) = (Some raw, c1) \<longrightarrow>
             scrapeAnnotateAndCache cfg P U b now now' c search kw n True fr
               = Some (Inr \<lparr>r_key = lruKeyRaw P search n, r_items = [], r_metrics = metrics raw,
                            r_fromCache = True\<rparr>, c1))
        \<and> ((if \<not> fr then lruGet cfg now c (lruKeyRaw P search n) else (None, c)) = (None, c1)
             \<and> scrapeFromSearch U b search n = Some (Inr (its, m))
             \<and> lruSet cfg now' c1 (lruKeyRaw P search n) (its, m) = Some c2 \<longrightarrow>
             scrapeAnnotateAndCache cfg P U b now now' c search kw n True fr
               = Some (Inr \<lparr>r_key = lruKeyRaw P search n, r_items = [], r_metrics = m,
                            r_fromCache = False\<rparr>, c2)))"
proof (intro conjI impI)
  assume "norm P needle = []"
  then show "\<not> contains P h needle" by (rule contains_empty_needle)
next
  assume "kw = None \<or> kw = Some []"
  then have e: "norm P kw = []" using norm_empty by auto
  show "annotate P vs kw = map (\<lambda>v. v\<lparr>keywordMentioned := Some False\<rparr>) vs"
    by (rule annotate_empty_norm[OF e])
  {
    assume "scrapeAnnotateAndCache cfg P U b now now' c search kw n True fr = Some (Inr r, c')"
    from scrapeAnnotateAndCache_Inr[OF this] obtain raw' fc
      where "r = respond P (lruKeyRaw P search n) raw' kw True fc" by blast
    then show "r_items r = []"
      by (simp add: respond_empty_norm[OF e])
  }
  {
    assume "\<not> fr \<and> lruGet cfg now c (lruKeyRaw P search n) = (Some raw, c1)"
    then show "scrapeAnnotateAndCache cfg P U b now now' c search kw n True fr
               = Some (Inr \<lparr>r_key = lruKeyRaw P search n, r_items = [], r_metrics = metrics raw,
                            r_fromCache = True\<rparr>, c1)"
      by (simp add: scrapeAnnotateAndCache_hit respond_empty_norm[OF e])
  }
  {
    assume "(if \<not> fr then lruGet cfg now c (lruKeyRaw P search n) else (None, c)) = (None, c1)
             \<and> scrapeFromSearch U b search n = Some (Inr (its, m))
             \<and> lruSet cfg now' c1 (lruKeyRaw P search n) (its, m) = Some c2"
    then show "scrapeAnnotateAndCache cfg P U b now now' c search kw n True fr
               = Some (Inr \<lparr>r_key = lruKeyRaw P search n, r_items = [], r_metrics = m,
                            r_fromCache = False\<rparr>, c2)"
      by (simp add: scrapeAnnotateAndCache_miss respond_empty_norm[OF e])
  }
qed

theorem empty_keyword_matches_nothing_witness:
  "\<not> contains sample_platform (Some (js ''Fun fact'')) (Some [])
   \<and> annotate sample_platform [sample_video] None = [sample_video\<lparr>keywordMentioned := Some False\<rparr>]
   \<and> scrapeAnnotateAndCache sample_cfg sample_platform URL_simple sample_browser 5100 5200
         [(js ''foo+5'', sample_raw 5000)] (Some (js ''foo'')) (Some []) 5 True False
       = Some (Inr \<lparr>r_key = js ''foo+5'', r_items = [], r_metrics = sample_metrics,
                    r_fromCache = True\<rparr>, [(js ''foo+5'', sample_raw 5000)])
   \<and> scrapeAnnotateAndCache sample_cfg sample_platform URL_simple sample_browser 5100 5200
         [] (Some (js ''foo'')) None 5 True False
       = Some (Inr \<lparr>r_key = js ''foo+5'', r_items = [],
                    r_metrics = sample_metrics\<lparr>videosScraped := 1\<rparr>, r_fromCache = False\<rparr>,
               [(js ''foo+5'', \<lparr>items = [sample_video],
                                metrics = sample_metrics\<lparr>videosScraped := 1\<rparr>,
                                createdAt = 5200\<rparr>)])"
  using empty_keyword_matches_nothing [where P = sample_platform and needle = "Some []" and h = "Some (js ''Fun fact'')"
      and kw = "Some []" and vs = "[sample_video]" and cfg = sample_cfg and U = URL_simple
      and b = sample_browser and now = 5100 and now' = 5200
      and c = "[(js ''foo+5'', sample_raw 5000)]" and search = "Some (js ''foo'')" and n = 5
      and fr = False and raw = "sample_raw 5000" and ?c1.0 = "[(js ''foo+5'', sample_raw 5000)]"
      and r = "\<lparr>r_key = js ''foo+5'', r_items = [], r_metrics = sample_metrics,
                    r_fromCache = True\<rparr>"
      and c' = "[(js ''foo+5'', sample_raw 5000)]"]
    empty_keyword_matches_nothing [where P = sample_platform and needle = None and h = None
      and kw = None and vs = "[sample_video]" and cfg = sample_cfg and U = URL_simple
      and b = sample_browser and now = 5100 and now' = 5200
      and c = "[]" and search = "Some (js ''foo'')" and n = 5
      and fr = False and ?c1.0 = "[]" and its = "[sample_video]"
      and m = "sample_metrics\<lparr>videosScraped := 1\<rparr>"
      and ?c2.0 = "[(js ''foo+5'', \<lparr>items = [sample_video],
                                metrics = sample_metrics\<lparr>videosScraped := 1\<rparr>,
                                createdAt = 5200\<rparr>)]"]
  by (simp add: norm_empty key_foo scrape_foo lruGet_def lruSet_def Map_get_def Map_has_def
      Map_set_def Map_delete_def evict.simps sample_cfg_def sample_raw_def)

lemma raw_only_iff: "raw_only c \<longleftrightarrow> (\<forall>kv \<in> set c. \<forall>v \<in> set (items (snd kv)). keywordMentioned v = None)"
  by (simp add: raw_only_def list_all_iff)

lemma raw_only_subset: "set c' \<subseteq> set c \<Longrightarrow> raw_only c \<Longrightarrow> raw_only c'"
  by (auto simp: raw_only_iff)

lemma set_lruGet:
  assumes "lruGet cfg now c key = (hit, c1)"
  shows "set c1 \<subseteq> set c"
proof (cases "Map_get c key")
  case None
  with assms show ?thesis by (simp add: lruGet_def)
next
  case (Some raw)
  from Map_get_in_set[OF Some] set_Map_delete[of key c]
  have "set (Map_delete key c @ [(key, raw)]) \<subseteq> set c" by auto
  with assms Some set_Map_delete[of key c] show ?thesis
    by (auto simp: lruGet_def Map_set_delete split: if_splits)
qed

lemma lruGet_Some:
  "lruGet cfg now c key = (Some raw, c1) \<Longrightarrow>
   Map_get c key = Some raw \<and> c1 = Map_delete key c @ [(key, raw)]"
  by (auto simp: lruGet_def Map_set_delete split: option.splits if_splits)

lemma Map_get_touch:
  "Map_get c key = Some raw \<Longrightarrow> Map_get (Map_delete key c @ [(key, raw)]) k = Map_get c k"
proof (cases "k = key")
  case True
  assume "Map_get c key = Some raw"
  with True Map_get_delete[of key c] show ?thesis
    by (simp add: Map_get_def map_add_def)
next
  case False
  have "map_of (Map_delete key c) k = map_of c k"
    using False by (induction c) (auto simp: Map_delete_def)
  with False show ?thesis
    by (simp add: Map_get_def map_add_def split: option.splits)
qed

lemma scrapeFromSearch_raw:
  "scrapeFromSearch U b search n = Some (Inr (its, m)) \<Longrightarrow> \<forall>v \<in> set its. keywordMentioned v = None"
  by (auto simp: scrapeFromSearch_def item_of_info_def Let_def
      split: option.splits sum.splits prod.splits)

lemma mentioned_annotated: "mentioned P (v\<lparr>keywordMentioned := x\<rparr>) kw = mentioned P v kw"
  by (simp add: mentioned_def)

lemma annotate_annotate: "annotate P (annotate P vs kw1) kw2 = annotate P vs kw2"
  by (simp add: annotate_def mentioned_annotated)

text \<open>Every way the call can end, read off its definition.\<close>

lemma scrapeAnnotateAndCache_cases:
  assumes "scrapeAnnotateAndCache cfg P U b now now' c search kw n sh fr = Some (res, c')"
  shows "(\<exists>raw. \<not> fr \<and> Map_get c (lruKeyRaw P search n) = Some raw
            \<and> res = Inr (respond P (lruKeyRaw P search n) raw kw sh True)
            \<and> c' = Map_delete (lruKeyRaw P search n) c @ [(lruKeyRaw P search n, raw)])
       \<or> (\<exists>c1 e. set c1 \<subseteq> set c \<and> res = Inl e \<and> c' = c1)
       \<or> (\<exists>c1 its m. set c1 \<subseteq> set c
            \<and> scrapeFromSearch U b search n = Some (Inr (its, m))
            \<and> lruSet cfg now' c1 (lruKeyRaw P search n) (its, m) = Some c'
            \<and> res = Inr (respond P (lruKeyRaw P search n)
                          \<lparr>items = its, metrics = m, createdAt = now'\<rparr> kw sh False))"
proof -
  let ?key = "lruKeyRaw P search n"
  obtain hit c1 where g: "(if \<not> fr then lruGet cfg now c ?key else (None, c)) = (hit, c1)"
    by (cases "if \<not> fr then lruGet cfg now c ?key else (None, c)")
  then have sub: "set c1 \<subseteq> set c"
    by (auto split: if_splits dest: set_lruGet)
  show ?thesis
  proof (cases hit)
    case (Some raw)
    with g have nf: "\<not> fr" and lg: "lruGet cfg now c ?key = (Some raw, c1)"
      by (auto split: if_splits)
    from scrapeAnnotateAndCache_hit[OF nf lg, of U b now' kw sh] assms lruGet_Some[OF lg] nf
    show ?thesis by auto
  next
    case None
    with g have "(if \<not> fr then lruGet cfg now c ?key else (None, c)) = (None, c1)" by simp
    from scrapeAnnotateAndCache_miss[OF this, of U b now' kw sh] assms sub show ?thesis
      by (auto split: option.splits sum.splits prod.splits)
  qed
qed

text \<open>
  C2. Annotating an annotated list with a second keyword gives what annotating the raw
  list with the second keyword gives. A call of \<open>scrapeAnnotateAndCache\<close> that ends keeps
  the cache free of \<open>keywordMentioned\<close>; a call served from the cache leaves every stored
  entry as it was; the entry stored under the request's key after the call holds the very
  items the response annotated; and a later read of that entry, while fresh, with any
  other keyword returns the annotation of the same stored items.
\<close>

theorem annotation_pure:
  "annotate P (annotate P vs kw1) kw2 = annotate P vs kw2
   \<and> (scrapeAnnotateAndCache cfg P U b now now' c search kw1 n sh1 fr = Some (res, c') \<longrightarrow>
        (raw_only c \<longrightarrow> raw_only c')
        \<and> (res = Inr r \<and> r_fromCache r \<longrightarrow> Map_get c' k = Map_get c k)
        \<and> (res = Inr r \<and> Map_get c' (lruKeyRaw P search n) = Some e \<longrightarrow>
             r = respond P (lruKeyRaw P search n) e kw1 sh1 (r_fromCache r)
             \<and> (\<not> (0 < CACHE_TTL_MS cfg \<and> CACHE_TTL_MS cfg < now2 - createdAt e) \<longrightarrow>
                  scrapeAnnotateAndCache cfg P U2 b2 now2 now2' c' search kw2 n sh2 False
                    = Some (Inr (respond P (lruKeyRaw P search n) e kw2 sh2 True),
                            Map_delete (lruKeyRaw P search n) c' @ [(lruKeyRaw P search n, e)]))))"
proof (intro conjI impI)
  show "annotate P (annotate P vs kw1) kw2 = annotate P vs kw2" by (rule annotate_annotate)
next
  assume call: "scrapeAnnotateAndCache cfg P U b now now' c search kw1 n sh1 fr = Some (res, c')"
    and ro: "raw_only c"
  from scrapeAnnotateAndCache_cases[OF call] show "raw_only c'"
  proof (elim disjE exE conjE)
    fix raw assume "Map_get c (lruKeyRaw P search n) = Some raw"
      and c': "c' = Map_delete (lruKeyRaw P search n) c @ [(lruKeyRaw P search n, raw)]"
    then have "set c' \<subseteq> set c"
      by (auto simp: Map_delete_def dest: Map_get_in_set)
    then show ?thesis using ro by (rule raw_only_subset)
  next
    fix c1 e assume "set c1 \<subseteq> set c" "c' = c1"
    then show ?thesis using ro by (auto intro: raw_only_subset)
  next
    fix c1 its m
    assume sub: "set c1 \<subseteq> set c"
      and sc: "scrapeFromSearch U b search n = Some (Inr (its, m))"
      and ls: "lruSet cfg now' c1 (lruKeyRaw P search n) (its, m) = Some c'"
    from set_lruSet[OF ls] sub have "set c' \<subseteq> insert (lruKeyRaw P search n,
        \<lparr>items = its, metrics = m, createdAt = now'\<rparr>) (set c)"
      by (auto simp: Map_delete_def)
    with ro scrapeFromSearch_raw[OF sc] show ?thesis
      by (auto simp: raw_only_iff)
  qed
next
  assume call: "scrapeAnnotateAndCache cfg P U b now now' c search kw1 n sh1 fr = Some (res, c')"
    and "res = Inr r \<and> r_fromCache r"
  with scrapeAnnotateAndCache_cases[OF call] show "Map_get c' k = Map_get c k"
    by (auto simp: respond_def Let_def Map_get_touch)
next
  assume call: "scrapeAnnotateAndCache cfg P U b now now' c search kw1 n sh1 fr = Some (res, c')"
    and a: "res = Inr r \<and> Map_get c' (lruKeyRaw P search n) = Some e"
  from scrapeAnnotateAndCache_cases[OF call]
  show "r = respond P (lruKeyRaw P search n) e kw1 sh1 (r_fromCache r)"
  proof (elim disjE exE conjE)
    fix raw assume g: "Map_get c (lruKeyRaw P search n) = Some raw"
      and res: "res = Inr (respond P (lruKeyRaw P search n) raw kw1 sh1 True)"
      and c': "c' = Map_delete (lruKeyRaw P search n) c @ [(lruKeyRaw P search n, raw)]"
    from a c' Map_get_touch[OF g, of "lruKeyRaw P search n"] g have "e = raw" by simp
    with a res show ?thesis by (auto simp: respond_def Let_def)
  next
    fix c1 e' assume "res = Inl e'"
    with a show ?thesis by simp
  next
    fix c1 its m
    assume ls: "lruSet cfg now' c1 (lruKeyRaw P search n) (its, m) = Some c'"
      and res: "res = Inr (respond P (lruKeyRaw P search n)
                          \<lparr>items = its, metrics = m, createdAt = now'\<rparr> kw1 sh1 False)"
    from lruSet_stored[OF ls] a have "e = \<lparr>items = its, metrics = m, createdAt = now'\<rparr>" by simp
    with a res show ?thesis by (auto simp: respond_def Let_def)
  qed
next
  assume a: "res = Inr r \<and> Map_get c' (lruKeyRaw P search n) = Some e"
    and fresh: "\<not> (0 < CACHE_TTL_MS cfg \<and> CACHE_TTL_MS cfg < now2 - createdAt e)"
  from a have g: "Map_get c' (lruKeyRaw P search n) = Some e" by simp
  show "scrapeAnnotateAndCache cfg P U2 b2 now2 now2' c' search kw2 n sh2 False
          = Some (Inr (respond P (lruKeyRaw P search n) e kw2 sh2 True),
                  Map_delete (lruKeyRaw P search n) c' @ [(lruKeyRaw P search n, e)])"
    by (rule scrapeAnnotateAndCache_hit) (simp_all add: lruGet_fresh[OF g fresh])
qed

theorem annotation_pure_witness:
  "annotate sample_platform (annotate sample_platform [sample_video] (Some (js ''body''))) (Some (js ''cat''))
     = [sample_video\<lparr>keywordMentioned := Some False\<rparr>]
   \<and> scrapeAnnotateAndCache sample_cfg sample_platform URL_simple sample_browser 5100 5200
         [] (Some (js ''foo'')) (Some (js ''body'')) 5 False False
       = Some (Inr \<lparr>r_key = js ''foo+5'',
                    r_items = [sample_video\<lparr>keywordMentioned := Some True\<rparr>],
                    r_metrics = sample_metrics\<lparr>videosScraped := 1\<rparr>, r_fromCache = False\<rparr>,
               [(js ''foo+5'', \<lparr>items = [sample_video],
                                metrics = sample_metrics\<lparr>videosScraped := 1\<rparr>,
                                createdAt = 5200\<rparr>)])
   \<and> raw_only [(js ''foo+5'', \<lparr>items = [sample_video],
                                metrics = sample_metrics\<lparr>videosScraped := 1\<rparr>,
                                createdAt = 5200\<rparr>)]
   \<and> scrapeAnnotateAndCache sample_cfg sample_platform URL_simple sample_browser 5300 5400
         [(js ''foo+5'', \<lparr>items = [sample_video],
                          metrics = sample_metrics\<lparr>videosScraped := 1\<rparr>,
                          createdAt = 5200\<rparr>)]
         (Some (js ''foo'')) (Some (js ''cat'')) 5 False False
       = Some (Inr \<lparr>r_key = js ''foo+5'',
                    r_items = [sample_video\<lparr>keywordMentioned := Some False\<rparr>],
                    r_metrics = sample_metrics\<lparr>videosScraped := 1\<rparr>, r_fromCache = True\<rparr>,
               [(js ''foo+5'', \<lparr>items = [sample_video],
                                metrics = sample_metrics\<lparr>videosScraped := 1\<rparr>,
                                createdAt = 5200\<rparr>)])
   \<and> Map_get [(js ''foo+5'', \<lparr>items = [sample_video],
                                metrics = sample_metrics\<lparr>videosScraped := 1\<rparr>,
                                createdAt = 5200\<rparr>)] (js ''foo+5'')
       = Some \<lparr>items = [sample_video], metrics = sample_metrics\<lparr>videosScraped := 1\<rparr>,
               createdAt = 5200\<rparr>"
proof -
  let ?m = "sample_metrics\<lparr>videosScraped := 1\<rparr>"
  let ?e = "\<lparr>items = [sample_video], metrics = ?m, createdAt = 5200\<rparr>"
  let ?c1 = "[(js ''foo+5'', ?e)]"
  let ?r1 = "\<lparr>r_key = js ''foo+5'',
              r_items = [sample_video\<lparr>keywordMentioned := Some True\<rparr>],
              r_metrics = ?m, r_fromCache = False\<rparr>"
  let ?r2 = "\<lparr>r_key = js ''foo+5'',
              r_items = [sample_video\<lparr>keywordMentioned := Some False\<rparr>],
              r_metrics = ?m, r_fromCache = True\<rparr>"
  have call1: "scrapeAnnotateAndCache sample_cfg sample_platform URL_simple sample_browser 5100 5200
         [] (Some (js ''foo'')) (Some (js ''body'')) 5 False False = Some (Inr ?r1, ?c1)"
    by (simp add: key_foo scrape_foo scrapeAnnotateAndCache_def respond_def annotate_sample
        lruGet_def lruSet_def Map_get_def Map_has_def Map_set_def Map_delete_def evict.simps
        sample_cfg_def Let_def)
  have g: "Map_get ?c1 (js ''foo+5'') = Some ?e"
    by (simp add: Map_get_def)
  have d: "Map_delete (js ''foo+5'') ?c1 @ [(js ''foo+5'', ?e)] = ?c1"
    by (simp add: Map_delete_def)
  have fresh: "\<not> (0 < CACHE_TTL_MS sample_cfg \<and> CACHE_TTL_MS sample_cfg < 5300 - createdAt ?e)"
    by (simp add: sample_cfg_def)
  have r2: "respond sample_platform (js ''foo+5'') ?e (Some (js ''cat'')) False True = ?r2"
    by (simp add: respond_def annotate_sample)
  note thm1 = annotation_pure [where P = sample_platform and vs = "[sample_video]" and ?kw1.0 = "Some (js ''body'')"
      and ?kw2.0 = "Some (js ''cat'')" and cfg = sample_cfg and U = URL_simple
      and b = sample_browser and now = 5100 and now' = 5200 and c = "[]"
      and search = "Some (js ''foo'')" and n = 5 and ?sh1.0 = False and fr = False
      and res = "Inr ?r1" and c' = ?c1 and r = ?r1 and e = ?e
      and ?now2.0 = 5300 and now2' = 5400 and ?U2.0 = URL_simple and ?b2.0 = sample_browser
      and ?sh2.0 = False and k = "js ''foo+5''"]
  from thm1 have a: "annotate sample_platform (annotate sample_platform [sample_video] (Some (js ''body''))) (Some (js ''cat''))
      = annotate sample_platform [sample_video] (Some (js ''cat''))"
    by (rule conjunct1)
  from thm1 call1 have b: "raw_only [] \<longrightarrow> raw_only ?c1"
    by blast
  from thm1 call1 g fresh have "scrapeAnnotateAndCache sample_cfg sample_platform URL_simple sample_browser 5300 5400
      ?c1 (Some (js ''foo'')) (Some (js ''cat'')) 5 False False
      = Some (Inr (respond sample_platform (lruKeyRaw sample_platform (Some (js ''foo'')) 5) ?e (Some (js ''cat'')) False True),
              Map_delete (lruKeyRaw sample_platform (Some (js ''foo'')) 5) ?c1 @ [(lruKeyRaw sample_platform (Some (js ''foo'')) 5, ?e)])"
    unfolding key_foo by blast
  then have call2: "scrapeAnnotateAndCache sample_cfg sample_platform URL_simple sample_browser 5300 5400
      ?c1 (Some (js ''foo'')) (Some (js ''cat'')) 5 False False = Some (Inr ?r2, ?c1)"
    by (simp only: key_foo d r2)
  from b have ro: "raw_only ?c1" by (simp add: raw_only_def)
  from a call1 ro call2 g show ?thesis
    by (simp only: annotate_sample simp_thms)
qed

section \<open>Properties of the search input check\<close>

lemma buildSearchUrl_rejects_empty:
  "trim (case input of None \<Rightarrow> [] | Some x \<Rightarrow> x) = [] \<Longrightarrow> buildSearchUrl U input = Inl EmptySearchQuery"
  by (simp add: buildSearchUrl_def)

lemma buildSearchUrl_rejects_other_host:
  "trim (case input of None \<Rightarrow> [] | Some x \<Rightarrow> x) = s \<Longrightarrow> s \<noteq> [] \<Longrightarrow> isHttpUrl s \<Longrightarrow>
   U s = Some u \<Longrightarrow> \<not> includes_str (hostname u) (js ''tiktok.com'') \<Longrightarrow>
   buildSearchUrl U input = Inl NotATikTokURL"
  by (simp add: buildSearchUrl_def)

lemma rejected_request_leaves_cache:
  "buildSearchUrl U search = Inl e \<Longrightarrow> open_page b = None \<Longrightarrow>
   fr \<or> Map_get c (lruKeyRaw P search n) = None \<Longrightarrow>
   scrapeAnnotateAndCache cfg P U b now now' c search kw n sh fr = Some (Inl e, c)"
  by (auto simp: scrapeAnnotateAndCache_def scrapeFromSearch_def lruGet_def Let_def)

lemma key_nottiktok: "lruKeyRaw sample_platform (Some (js ''https://nottiktok.com/'')) 5 = js ''https://nottiktok.com/+5''"
  by (simp add: lruKeyRaw_def builtin_eval trim_def isWhiteSpace_def decimal_def digits.simps)

lemma URL_nottiktok:
  "URL_simple (js ''https://nottiktok.com/'')
     = Some \<lparr>hostname = js ''nottiktok.com'', pathname = js ''/'', searchParams_q = None\<rparr>"
  by (simp add: URL_simple_def js_def asciiLower_def isLetter_def Let_def)

text \<open>
  C8. The host check is a substring test. The URL \<open>https://nottiktok.com/\<close> has the
  host \<open>nottiktok.com\<close>, which is not the target domain; \<open>buildSearchUrl\<close> does not
  throw on it but returns a search URL, and the request runs a scrape, returns its
  output and stores it in the cache.
\<close>

theorem buildSearchUrl_accepts_nottiktok:
  "URL_simple (js ''https://nottiktok.com/'')
     = Some \<lparr>hostname = js ''nottiktok.com'', pathname = js ''/'', searchParams_q = None\<rparr>
   \<and> buildSearchUrl URL_simple (Some (js ''https://nottiktok.com/''))
     = Inr (js ''https://www.tiktok.com/search?q='')
   \<and> scrapeAnnotateAndCache sample_cfg sample_platform URL_simple sample_browser 5100 5200 []
         (Some (js ''https://nottiktok.com/'')) (Some (js ''body'')) 5 False False
     = Some (Inr \<lparr>r_key = js ''https://nottiktok.com/+5'',
                  r_items = [sample_video\<lparr>keywordMentioned := Some True\<rparr>],
                  r_metrics = sample_metrics\<lparr>videosScraped := 1\<rparr>, r_fromCache = False\<rparr>,
             [(js ''https://nottiktok.com/+5'',
               \<lparr>items = [sample_video], metrics = sample_metrics\<lparr>videosScraped := 1\<rparr>,
                createdAt = 5200\<rparr>)])"
proof -
  have u: "URL_simple (js ''https://nottiktok.com/'')
     = Some \<lparr>hostname = js ''nottiktok.com'', pathname = js ''/'', searchParams_q = None\<rparr>"
    by (rule URL_nottiktok)
  have t: "trim (js ''https://nottiktok.com/'') = js ''https://nottiktok.com/''"
    by (simp add: js_def trim_def isWhiteSpace_def)
  have h: "isHttpUrl (js ''https://nottiktok.com/'')"
    by (simp add: js_def isHttpUrl_def asciiLower_def)
  have i: "includes_str (js ''nottiktok.com'') (js ''tiktok.com'')"
    by (simp add: js_def)
  have b: "buildSearchUrl URL_simple (Some (js ''https://nottiktok.com/''))
     = Inr (js ''https://www.tiktok.com/search?q='')"
    unfolding buildSearchUrl_def
    by (simp add: t h u i Let_def) (simp add: js_def trim_def isWhiteSpace_def searchUrlFor_def)
  have s: "scrapeFromSearch URL_simple sample_browser (Some (js ''https://nottiktok.com/'')) 5
     = Some (Inr ([sample_video], sample_metrics\<lparr>videosScraped := 1\<rparr>))"
    by (simp add: scrapeFromSearch_def b sample_browser_def item_of_sample_info)
  show ?thesis
    by (simp add: u b s key_nottiktok scrapeAnnotateAndCache_def respond_def annotate_sample
        lruGet_def lruSet_def Map_get_def Map_has_def Map_set_def Map_delete_def evict.simps
        sample_cfg_def Let_def)
qed

section \<open>Properties of the comments extractor\<close>







lemma clickFirst_responsive:
  "(\<forall>t. responsive p t) \<Longrightarrow> \<exists>t'. clickFirst p pause sels t = Inr t'"
  by (induction sels arbitrary: t) (auto simp: Let_def)



lemma sample_page_const:
  "\<forall>t. page_url sample_page t = js ''https://www.tiktok.com/@alice/video/1''
       \<and> videoCurrentSrc sample_page t = Some (js ''blob:1'')
       \<and> videoDescText sample_page t = js ''Fun fact''"
  "\<forall>t. responsive sample_page t"
  by (simp_all add: sample_page_def)

lemma await_sample: "await sample_page t = t"
  by (simp add: await_def sample_page_def)





section \<open>Properties of the navigator\<close>

lemma await_ge: "t \<le> await p t"
  by (simp add: await_def)

lemma perform_ge: "t \<le> perform p a t"
  by (cases a) (auto simp: Let_def await_def)

lemma hasChanged_const:
  assumes "\<forall>t. page_url p t = u \<and> videoCurrentSrc p t = src \<and> videoDescText p t = cap"
    and "\<forall>t. responsive p t"
  shows "hasChanged p u src cap t = Inr (False, await p (await p t))"
  using assms by (simp add: hasChanged_def Let_def)

lemma poll_const:
  assumes c: "\<forall>t. page_url p t = u \<and> videoCurrentSrc p t = src \<and> videoDescText p t = cap"
    and r: "\<forall>t. responsive p t"
  shows "\<exists>t'. poll p u src cap ld t = Inr (False, t') \<and> ld \<le> t' \<and> t \<le> t'"
  using c r
proof (induction p u src cap ld t rule: poll.induct)
  case (1 p u src cap ld t)
  show ?case
  proof (cases "t < ld")
    case False
    then show ?thesis by (simp add: poll.simps[of p u src cap ld t])
  next
    case True
    let ?t1 = "await p (await p t)"
    have hc: "hasChanged p u src cap t = Inr (False, ?t1)"
      using "1.prems" by (rule hasChanged_const)
    from "1.IH"[OF True hc refl _ "1.prems"]
    obtain t' where t': "poll p u src cap ld (?t1 + 200) = Inr (False, t')" "ld \<le> t'"
      "?t1 + 200 \<le> t'" by auto
    have "t \<le> ?t1" using await_ge[of t p] await_ge[of "await p t" p] by linarith
    with t' True hc show ?thesis
      by (simp add: poll.simps[of p u src cap ld t])
  qed
qed

lemma ladder_const:
  assumes c: "\<forall>t. page_url p t = u \<and> videoCurrentSrc p t = src \<and> videoDescText p t = cap"
    and r: "\<forall>t. responsive p t"
  shows "\<exists>res. ladder p u src cap t0 deadline acts n t = Inr res \<and> \<not> moved res
           \<and> n \<le> attempts res \<and> attempts res \<le> n + length acts
           \<and> (acts \<noteq> [] \<longrightarrow> n < attempts res)
           \<and> t \<le> t0 + tookMs res
           \<and> (deadline \<le> t0 + tookMs res \<or> t + 2500 * int (length acts) \<le> t0 + tookMs res)"
proof (induction acts arbitrary: n t)
  case Nil
  show ?case by simp
next
  case (Cons a acts)
  let ?t1 = "perform p a t"
  from poll_const[OF c r, of "?t1 + 2500" ?t1]
  obtain t2 where t2: "poll p u src cap (?t1 + 2500) ?t1 = Inr (False, t2)" "?t1 + 2500 \<le> t2"
    by auto
  have ge: "t + 2500 \<le> t2" using perform_ge[of t p a] t2(2) by linarith
  show ?case
  proof (cases "deadline \<le> t2")
    case True
    with t2 ge show ?thesis by (simp add: Let_def)
  next
    case False
    from Cons.IH[of "n + 1" t2]
    obtain res where res: "ladder p u src cap t0 deadline acts (n + 1) t2 = Inr res" "\<not> moved res"
      "n + 1 \<le> attempts res" "attempts res \<le> n + 1 + length acts" "t2 \<le> t0 + tookMs res"
      "deadline \<le> t0 + tookMs res \<or> t2 + 2500 * int (length acts) \<le> t0 + tookMs res"
      by auto
    from False t2 res ge show ?thesis
      by (auto simp: Let_def algebra_simps)
  qed
qed

lemma clickFirst_time:
  "clickFirst p pause sels t = Inr t' \<Longrightarrow> 0 \<le> pause \<Longrightarrow> t \<le> t'"
proof (induction sels arbitrary: t)
  case Nil
  then show ?case by simp
next
  case (Cons sel sels)
  show ?case
  proof (cases "has_element p sel (await p t)")
    case True
    with Cons.prems await_ge[of t p] await_ge[of "await p t" p] show ?thesis
      by (auto simp: Let_def split: if_splits)
  next
    case False
    with Cons.prems have "clickFirst p pause sels (await p t) = Inr t'"
      by (auto simp: Let_def split: if_splits)
    from Cons.IH[OF this Cons.prems(2)] await_ge[of t p] show ?thesis by linarith
  qed
qed

lemma hasChanged_sample:
  "hasChanged sample_page (js ''https://www.tiktok.com/@alice/video/1'') (Some (js ''blob:1''))
     (js ''Fun fact'') t = Inr (False, t)"
  using hasChanged_const[OF sample_page_const, of t] by (simp add: await_sample)

lemma poll_sample:
  "poll sample_page (js ''https://www.tiktok.com/@alice/video/1'') (Some (js ''blob:1''))
     (js ''Fun fact'') (t + 2500) t = Inr (False, t + 2600)"
  by (simp add: poll.simps hasChanged_sample)

lemma sample_isVideoUrl: "isVideoUrl (js ''https://www.tiktok.com/@alice/video/1'')"
  by (simp add: isVideoUrl_def js_def)

text \<open>Upper bounds, on a page whose calls take at most \<open>L\<close> ms each.\<close>

lemma await_le: "\<forall>t. latency p t \<le> L \<Longrightarrow> await p t \<le> t + int L"
  by (simp add: await_def)

lemma perform_le:
  assumes "\<forall>t. latency p t \<le> L"
  shows "perform p a t \<le> t + 2 * int L"
  using await_le[OF assms, of t] await_le[OF assms, of "await p t"]
  by (cases a) (auto simp: Let_def)

lemma clickFirst_le:
  assumes lat: "\<forall>t. latency p t \<le> L"
  shows "clickFirst p pause sels t = Inr t' \<Longrightarrow> 0 \<le> pause \<Longrightarrow>
         t' \<le> t + (int (length sels) + 1) * int L + pause"
proof (induction sels arbitrary: t)
  case Nil
  then show ?case by simp
next
  case (Cons sel sels)
  have a1: "await p t \<le> t + int L" by (rule await_le[OF lat])
  have a2: "await p (await p t) \<le> await p t + int L" by (rule await_le[OF lat])
  have nn: "0 \<le> int (length sels) * int L" by simp
  have ex: "(int (length (sel # sels)) + 1) * int L = 2 * int L + int (length sels) * int L"
    "(int (length sels) + 1) * int L = int L + int (length sels) * int L"
    by (simp_all add: algebra_simps)
  show ?case
  proof (cases "has_element p sel (await p t)")
    case True
    with Cons.prems have "t' = await p (await p t) + pause"
      by (auto simp: Let_def split: if_splits)
    with a1 a2 nn show ?thesis unfolding ex by linarith
  next
    case False
    with Cons.prems have "clickFirst p pause sels (await p t) = Inr t'"
      by (auto simp: Let_def split: if_splits)
    from Cons.IH[OF this Cons.prems(2)] a1 show ?thesis unfolding ex by linarith
  qed
qed

lemma poll_const_le:
  assumes c: "\<forall>t. page_url p t = u \<and> videoCurrentSrc p t = src \<and> videoDescText p t = cap"
    and r: "\<forall>t. responsive p t"
    and lat: "\<forall>t. latency p t \<le> L"
  shows "\<exists>t'. poll p u src cap ld t = Inr (False, t') \<and> t' \<le> max t (ld + 2 * int L + 200)"
  using c r lat
proof (induction p u src cap ld t rule: poll.induct)
  case (1 p u src cap ld t)
  show ?case
  proof (cases "t < ld")
    case False
    then show ?thesis by (simp add: poll.simps[of p u src cap ld t])
  next
    case True
    let ?t1 = "await p (await p t)"
    have hc: "hasChanged p u src cap t = Inr (False, ?t1)"
      using "1.prems"(1,2) by (rule hasChanged_const)
    from "1.IH"[OF True hc refl _ "1.prems"]
    obtain t' where t': "poll p u src cap ld (?t1 + 200) = Inr (False, t')"
      "t' \<le> max (?t1 + 200) (ld + 2 * int L + 200)" by auto
    have "?t1 \<le> t + 2 * int L"
      using await_le[OF "1.prems"(3), of t] await_le[OF "1.prems"(3), of "await p t"]
      by linarith
    with t'(2) True have "t' \<le> max t (ld + 2 * int L + 200)" by linarith
    with t'(1) True hc show ?thesis
      by (simp add: poll.simps[of p u src cap ld t])
  qed
qed

text \<open>
  One rung takes at most \<open>R = 2700 + 4 L\<close> ms: the action, the window of 2.5 s, and the
  pass of the polling loop that crosses the end of the window. The ladder ends at most
  one rung after the deadline, and after at most one rung per action.
\<close>

lemma ladder_const_le:
  assumes c: "\<forall>t. page_url p t = u \<and> videoCurrentSrc p t = src \<and> videoDescText p t = cap"
    and r: "\<forall>t. responsive p t"
    and lat: "\<forall>t. latency p t \<le> L"
    and R: "R = 2700 + 4 * int L"
  shows "\<exists>res. ladder p u src cap t0 deadline acts n t = Inr res
           \<and> t0 + tookMs res \<le> max t deadline + R
           \<and> t0 + tookMs res \<le> t + int (length acts) * R"
proof (induction acts arbitrary: n t)
  case Nil
  from R show ?case by simp
next
  case (Cons a acts)
  let ?t1 = "perform p a t"
  from poll_const_le[OF c r lat, of "?t1 + 2500" ?t1]
  obtain t2 where t2: "poll p u src cap (?t1 + 2500) ?t1 = Inr (False, t2)"
    "t2 \<le> max ?t1 (?t1 + 2500 + 2 * int L + 200)"
    by auto
  from t2(2) perform_le[OF lat, of a t] R have le: "t2 \<le> t + R" by linarith
  from R have R0: "0 \<le> R" by simp
  then have nn: "0 \<le> int (length acts) * R" by simp
  show ?case
  proof (cases "deadline \<le> t2")
    case True
    with t2 le nn show ?thesis by (simp add: Let_def algebra_simps)
  next
    case False
    from Cons.IH[of "n + 1" t2]
    obtain res where res: "ladder p u src cap t0 deadline acts (n + 1) t2 = Inr res"
      "t0 + tookMs res \<le> max t2 deadline + R"
      "t0 + tookMs res \<le> t2 + int (length acts) * R"
      by auto
    from False res(2) have "t0 + tookMs res \<le> max t deadline + R" by linarith
    moreover from res(3) le have "t0 + tookMs res \<le> t + int (length (a # acts)) * R"
      by (simp add: algebra_simps)
    ultimately show ?thesis using False t2(1) res(1) by (simp add: Let_def)
  qed
qed

text \<open>
  C7 (as amended). On a page that answers every query and whose URL, media source and
  caption never change, \<open>goToNextVideo\<close> returns \<open>moved = false\<close> after at least one and at
  most seven attempts. If every call to the page takes at most \<open>L\<close> ms, it returns at
  most one rung after its deadline: \<open>tookMs\<close> is at most \<open>timeoutMs + 3000 + 13 L\<close> (with
  a negative \<open>timeoutMs\<close> counted as 0), which covers the steps before the ladder (at
  most \<open>300 + 9 L\<close> ms), the deadline, and one rung of at most \<open>2700 + 4 L\<close> ms; and
  whatever the deadline, it returns after six rungs: \<open>tookMs\<close> is at most
  \<open>16500 + 33 L\<close>. The deadline is read only after a rung's window, so the call does
  not return before the deadline unless all six rungs have run: \<open>tookMs\<close> is at least
  the smaller of \<open>timeoutMs\<close> and 15 s.
\<close>

theorem goToNextVideo_stuck_page:
  assumes "\<forall>t. page_url p t = u \<and> videoCurrentSrc p t = src \<and> videoDescText p t = cap"
    and "\<forall>t. responsive p t"
  shows "\<exists>res. goToNextVideo p timeoutMs t0 = Inr res \<and> \<not> moved res
           \<and> 1 \<le> attempts res \<and> attempts res \<le> 7
           \<and> min timeoutMs 15000 \<le> tookMs res
           \<and> ((\<forall>t. latency p t \<le> L) \<longrightarrow>
                 tookMs res \<le> max 0 timeoutMs + 3000 + 13 * int L
                 \<and> tookMs res \<le> 16500 + 33 * int L)"
proof -
  note c = assms(1) and r = assms(2)
  obtain t1 where t1: "clickFirst p 0 [SelVideo, SelVideoDesc, SelMain, SelBody] (await p t0) = Inr t1"
    using clickFirst_responsive[OF r] by blast
  from clickFirst_time[OF t1] await_ge[of t0 p] have g1: "t0 \<le> t1" by linarith
  define n :: nat where "n = (if \<not> isVideoUrl u then 1 else 0)"
  define t2 where "t2 = (if \<not> isVideoUrl u then await p t1 + 300 else t1)"
  define t4 where "t4 = await p (await p t2)"
  have g2: "t0 \<le> t4"
    using g1 await_ge[of t1 p] await_ge[of t2 p] await_ge[of "await p t2" p]
    by (auto simp: t2_def t4_def split: if_splits)
  have n7: "n \<le> 1" by (simp add: n_def)
  from ladder_const[OF c r, of t0 "t4 + timeoutMs" actions n t4]
  obtain res where res: "ladder p u src cap t0 (t4 + timeoutMs) actions n t4 = Inr res"
    "\<not> moved res" "attempts res \<le> n + length actions" "n < attempts res"
    "t4 + timeoutMs \<le> t0 + tookMs res \<or> t4 + 2500 * int (length actions) \<le> t0 + tookMs res"
    by (auto simp: actions_def)
  have "(\<forall>t. latency p t \<le> L) \<longrightarrow>
          tookMs res \<le> max 0 timeoutMs + 3000 + 13 * int L
          \<and> tookMs res \<le> 16500 + 33 * int L"
  proof
    assume lat: "\<forall>t. latency p t \<le> L"
    from clickFirst_le[OF lat t1] await_le[OF lat, of t0] have u1: "t1 \<le> t0 + 6 * int L"
      by simp
    have "t2 \<le> t1 + int L + 300"
      using await_le[OF lat, of t1] by (simp add: t2_def)
    with u1 have u4: "t4 \<le> t0 + 9 * int L + 300"
      using await_le[OF lat, of t2] await_le[OF lat, of "await p t2"]
      by (simp add: t4_def)
    from ladder_const_le[OF c r lat refl, of t0 "t4 + timeoutMs" actions n t4] res(1)
    have up: "t0 + tookMs res \<le> max t4 (t4 + timeoutMs) + (2700 + 4 * int L)"
      "t0 + tookMs res \<le> t4 + int (length actions) * (2700 + 4 * int L)"
      by auto
    from up(1) u4 have "tookMs res \<le> max 0 timeoutMs + 3000 + 13 * int L"
      by linarith
    moreover from up(2) u4 have "tookMs res \<le> 16500 + 33 * int L"
      by (simp add: actions_def)
    ultimately show "tookMs res \<le> max 0 timeoutMs + 3000 + 13 * int L
          \<and> tookMs res \<le> 16500 + 33 * int L" by simp
  qed
  moreover have "goToNextVideo p timeoutMs t0 = Inr res"
    using c r t1 res(1)
    by (simp add: goToNextVideo_def Let_def n_def t2_def t4_def split: if_splits)
  moreover from res(3) n7 have "attempts res \<le> 7" by (simp add: actions_def)
  moreover from res(4) have "1 \<le> attempts res" by simp
  moreover from res(5) g2 have "min timeoutMs 15000 \<le> tookMs res"
    by (auto simp: actions_def)
  ultimately show ?thesis using res(2) by blast
qed

theorem goToNextVideo_stuck_page_witness:
  "\<exists>res. goToNextVideo (sample_page\<lparr>latency := \<lambda>t. 100\<rparr>) 12000 0 = Inr res \<and> \<not> moved res
         \<and> 1 \<le> attempts res \<and> attempts res \<le> 7
         \<and> 12000 \<le> tookMs res \<and> tookMs res \<le> 16300"
proof -
  have c: "\<forall>t. page_url (sample_page\<lparr>latency := \<lambda>t. 100\<rparr>) t
              = js ''https://www.tiktok.com/@alice/video/1''
            \<and> videoCurrentSrc (sample_page\<lparr>latency := \<lambda>t. 100\<rparr>) t = Some (js ''blob:1'')
            \<and> videoDescText (sample_page\<lparr>latency := \<lambda>t. 100\<rparr>) t = js ''Fun fact''"
    and r: "\<forall>t. responsive (sample_page\<lparr>latency := \<lambda>t. 100\<rparr>) t"
    using sample_page_const by simp_all
  have lat: "\<forall>t. latency (sample_page\<lparr>latency := \<lambda>t. 100\<rparr>) t \<le> 100" by simp
  from goToNextVideo_stuck_page [OF c r, of 12000 0 100] lat show ?thesis by auto
qed

text \<open>
  C7 as stated fails: with the deadline of 12 s that the service passes, on a page that
  answers at once and never changes, the call returns after 13 s (five rungs of 2.6 s),
  which is not within the deadline.
\<close>

theorem goToNextVideo_overruns_deadline:
  "goToNextVideo sample_page 12000 0 = Inr \<lparr>moved = False, attempts = 5, tookMs = 13000\<rparr>"
proof -
  have c: "clickFirst sample_page 0 [SelVideo, SelVideoDesc, SelMain, SelBody] 0 = Inr 0"
    by (simp add: await_sample) (simp add: sample_page_def)
  have u: "page_url sample_page t = js ''https://www.tiktok.com/@alice/video/1''"
    "videoCurrentSrc sample_page t = Some (js ''blob:1'')"
    "videoDescText sample_page t = js ''Fun fact''" "responsive sample_page t" for t
    using sample_page_const by simp_all
  have nx: "\<not> has_element sample_page SelNext t" for t
    by (simp add: sample_page_def)
  have "ladder sample_page (js ''https://www.tiktok.com/@alice/video/1'') (Some (js ''blob:1''))
     (js ''Fun fact'') 0 12000 actions 0 0 = Inr \<lparr>moved = False, attempts = 5, tookMs = 13000\<rparr>"
    by (simp add: actions_def await_sample nx poll_sample Let_def)
  then show ?thesis
    by (simp add: goToNextVideo_def await_sample c u sample_isVideoUrl Let_def)
qed

section \<open>Properties of the page extractor\<close>

lemma nullish_first: "nullish a (nullish b c) = first_present [a, b, c]"
  by (cases a; cases b; cases c) (simp_all add: nullish_def)

lemma nonempty_strip:
  "(if truthy s then map_option stripAt s else None) = map_option stripAt (nonempty s)"
  by (simp add: nonempty_def)

lemma matchHandle_sample: "matchHandle (js ''https://www.tiktok.com/@bob/video/1'') = Some (js ''bob'')"
  by (simp add: js_def)

text \<open>
  C9 (as amended). The caption is the first of resolver title, in-page caption and
  in-page meta description that is not \<open>null\<close> (an empty string counts as a value). The
  username is the first of: the resolver's author name if it is not empty, without a
  leading \<open>@\<close>; the handle in the page URL; the in-page author link text if it is not
  empty, without a leading \<open>@\<close>. The caption is \<open>null\<close> exactly when its three sources
  are \<open>null\<close>; the username is \<open>null\<close> exactly when the author name and the link text
  are missing or empty and the URL holds no handle.
\<close>

theorem extractFields_precedence:
  "(let oe_title = (case oembed of None \<Rightarrow> None | Some oe \<Rightarrow> oembed_title oe);
        oe_author_name = (case oembed of None \<Rightarrow> None | Some oe \<Rightarrow> oembed_author_name oe);
        r = extractFields URL_new currentUrl oembed dd cmts
    in info_caption r = first_present [oe_title, dom_caption dd, dom_metaDesc dd]
       \<and> info_username r =
           first_present [map_option stripAt (nonempty oe_author_name), matchHandle currentUrl,
                          map_option stripAt (nonempty (dom_username dd))]
       \<and> (info_caption r = None
            \<longleftrightarrow> oe_title = None \<and> dom_caption dd = None \<and> dom_metaDesc dd = None)
       \<and> (info_username r = None
            \<longleftrightarrow> \<not> truthy oe_author_name \<and> matchHandle currentUrl = None
                \<and> \<not> truthy (dom_username dd)))"
proof -
  let ?t = "case oembed of None \<Rightarrow> None | Some oe \<Rightarrow> oembed_title oe"
  let ?a = "case oembed of None \<Rightarrow> None | Some oe \<Rightarrow> oembed_author_name oe"
  let ?r = "extractFields URL_new currentUrl oembed dd cmts"
  have c: "info_caption ?r = first_present [?t, dom_caption dd, dom_metaDesc dd]"
    by (simp add: extractFields_def Let_def nullish_first)
  have u: "info_username ?r = first_present [map_option stripAt (nonempty ?a), matchHandle currentUrl,
                          map_option stripAt (nonempty (dom_username dd))]"
    by (simp add: extractFields_def Let_def nullish_first nonempty_strip)
  have cn: "first_present [?t, dom_caption dd, dom_metaDesc dd] = None
      \<longleftrightarrow> ?t = None \<and> dom_caption dd = None \<and> dom_metaDesc dd = None"
    by (cases ?t; cases "dom_caption dd"; cases "dom_metaDesc dd") simp_all
  have un: "first_present [map_option stripAt (nonempty ?a), matchHandle currentUrl,
                          map_option stripAt (nonempty (dom_username dd))] = None
      \<longleftrightarrow> \<not> truthy ?a \<and> matchHandle currentUrl = None \<and> \<not> truthy (dom_username dd)"
    by (cases "truthy ?a"; cases "matchHandle currentUrl"; cases "truthy (dom_username dd)")
      (auto simp: nonempty_def truthy_def split: option.splits)
  show ?thesis
    unfolding Let_def c u cn un by simp
qed

theorem extractFields_precedence_witness:
  "info_caption (extractFields URL_simple (js ''https://www.tiktok.com/@bob/video/1'')
       (Some sample_oembed) sample_dom []) = Some (js ''Title'')
   \<and> info_username (extractFields URL_simple (js ''https://www.tiktok.com/@bob/video/1'')
       (Some sample_oembed) sample_dom []) = Some (js ''alice'')
   \<and> info_caption (extractFields URL_simple (js ''https://www.tiktok.com/@bob/video/1'')
       None sample_dom []) = Some (js ''Hello'')
   \<and> info_username (extractFields URL_simple (js ''https://www.tiktok.com/@bob/video/1'')
       None sample_dom []) = Some (js ''bob'')"
  using extractFields_precedence [where URL_new = URL_simple
      and currentUrl = "js ''https://www.tiktok.com/@bob/video/1''"
      and oembed = "Some sample_oembed" and dd = sample_dom and cmts = "[]"]
    extractFields_precedence [where URL_new = URL_simple
      and currentUrl = "js ''https://www.tiktok.com/@bob/video/1''"
      and oembed = None and dd = sample_dom and cmts = "[]"]
  by (simp add: Let_def matchHandle_sample sample_oembed_def sample_dom_def nonempty_def
      truthy_def stripAt_def) (simp add: js_def)

text \<open>
  C9 as stated fails on the empty string, whichever way "present" reads it. If an empty
  string is present, the username should be the resolver's empty author name, yet the
  code moves on to the URL handle. If an empty string is absent, the caption should move
  on from an empty resolver title to the in-page caption, yet the code keeps the empty
  title.
\<close>

theorem extractFields_empty_string_counterexample:
  "info_username (extractFields URL_simple (js ''https://www.tiktok.com/@bob/video/1'')
       (Some (sample_oembed\<lparr>oembed_author_name := Some []\<rparr>)) sample_dom []) = Some (js ''bob'')
   \<and> first_present [map_option stripAt (Some []),
         matchHandle (js ''https://www.tiktok.com/@bob/video/1''),
         map_option stripAt (dom_username sample_dom)] = Some []
   \<and> info_caption (extractFields URL_simple (js ''https://www.tiktok.com/@bob/video/1'')
       (Some (sample_oembed\<lparr>oembed_title := Some []\<rparr>)) sample_dom []) = Some []
   \<and> first_present [nonempty (Some []), nonempty (dom_caption sample_dom),
         nonempty (dom_metaDesc sample_dom)] = Some (js ''Hello'')"
  by (simp add: extractFields_def Let_def nullish_def matchHandle_sample sample_oembed_def
      sample_dom_def nonempty_def truthy_def stripAt_def) (simp add: js_def)

end
